theory Spec2Isabelle
  imports Complex_Main "HOL-Library.Word" "HOL-Library.Signed_Division"
begin

unbundle bit_operations_syntax

section \<open>The Fuchsia video capture device: data model\<close>

text \<open>
  A shallow embedding of \<^verbatim>\<open>media/capture/video/fuchsia/video_capture_device_fuchsia.cc\<close>.

  Integers have the widths of the target (Fuchsia runs on 64-bit machines only):
  \<^verbatim>\<open>size_t\<close> is a 64-bit word, \<^verbatim>\<open>uint32_t\<close> a 32-bit word, and \<^verbatim>\<open>int\<close> a 32-bit word read
  in two's complement by \<open>sint\<close>. Arithmetic wraps around. For \<^verbatim>\<open>int\<close> this is the result
  the hardware gives; the C++ standard leaves signed overflow undefined, and every theorem
  below that speaks about \<^verbatim>\<open>int\<close> results carries the range in which no overflow occurs.

  A pointer into a mapped buffer is modelled by its byte offset from the start of that
  buffer, a 64-bit word: \<^verbatim>\<open>src_span.data()\<close> and \<^verbatim>\<open>output_handle->data()\<close> are offset 0 of the
  source and of the destination buffer, and \<^verbatim>\<open>data() + size\<close> is the offset \<open>size\<close>.

  \<^verbatim>\<open>DCHECK\<close> and \<^verbatim>\<open>NOTREACHED\<close> compile to nothing in a release build and are modelled so;
  \<^verbatim>\<open>CHECK_LE\<close> terminates the process in every build and is a fatal outcome of the model.
\<close>

type_synonym size_t = "64 word"
type_synonym uint32_t = "32 word"
type_synonym cint = "32 word"
type_synonym ptr = "64 word"

text \<open>Signed division of \<^verbatim>\<open>int\<close> truncates towards zero.\<close>

definition int_div :: "cint \<Rightarrow> cint \<Rightarrow> cint" where
  "int_div a b = word_of_int (sint a sdiv sint b)"

text \<open>\<^verbatim>\<open>std::max\<close> on two \<^verbatim>\<open>int\<close>s compares them as signed numbers.\<close>

definition int_max :: "cint \<Rightarrow> cint \<Rightarrow> cint" where
  "int_max a b = (if sint a < sint b then b else a)"

subsection \<open>Geometry\<close>

text \<open>
  \<^verbatim>\<open>gfx::Size\<close> is the library class of \<^verbatim>\<open>ui/gfx/geometry/size.h\<close>: it holds two \<^verbatim>\<open>int\<close>s, and
  its constructor stores \<^verbatim>\<open>std::max(0, width)\<close> and \<^verbatim>\<open>std::max(0, height)\<close>, so that the
  components of a size are never negative. \<^verbatim>\<open>gfx::Rect(size)\<close> is the rectangle of that size
  with its origin at (0, 0). The theorems below about sizes assume components that are not
  negative. Only the two counterexamples at the largest \<^verbatim>\<open>int\<close> go through the clamping of a
  negative component: without it the stored width would be the least \<^verbatim>\<open>int\<close> instead of 0, and
  the claims would fail there all the same.
\<close>

record gfx_Size =
  width :: cint
  height :: cint

definition Size :: "cint \<Rightarrow> cint \<Rightarrow> gfx_Size" where
  "Size w h = \<lparr>width = int_max 0 w, height = int_max 0 h\<rparr>"

datatype gfx_Rect = Rect (rect_x: cint) (rect_y: cint) (rect_width: cint) (rect_height: cint)

definition Rect_of_Size :: "gfx_Size \<Rightarrow> gfx_Rect" where
  "Rect_of_Size s = Rect 0 0 (width s) (height s)"

subsection \<open>Sysmem buffers\<close>

datatype PixelFormatType = I420 | YV12 | NV12 | OtherPixelFormat uint32_t

datatype VideoPixelFormat = PIXEL_FORMAT_I420 | PIXEL_FORMAT_UNKNOWN

text \<open>
  The fields of \<^verbatim>\<open>fuchsia::sysmem::ImageFormatConstraints\<close> that the device reads; all of
  them are \<^verbatim>\<open>uint32_t\<close> in the FIDL bindings.
\<close>

record ImageFormatConstraints =
  pixel_format_type :: PixelFormatType
  min_coded_width :: uint32_t
  required_max_coded_width :: uint32_t
  coded_width_divisor :: uint32_t
  min_coded_height :: uint32_t
  required_max_coded_height :: uint32_t
  coded_height_divisor :: uint32_t
  min_bytes_per_row :: uint32_t
  bytes_per_row_divisor :: uint32_t

record SingleBufferSettings =
  has_image_format_constraints :: bool
  image_format_constraints :: ImageFormatConstraints

text \<open>
  \<^verbatim>\<open>SysmemBufferReader\<close> is implemented in another file. The device uses its buffer settings,
  its buffer count and the mapping of a buffer. A mapping is a byte span of the source
  buffer; only its size enters the device's decisions, so \<open>mappings\<close> lists the size of each
  buffer's span (0 for an empty span).
\<close>

record SysmemBufferReader =
  buffer_settings :: SingleBufferSettings
  mappings :: "size_t list"

text \<open>
  Modelled from the spec: \<^verbatim>\<open>bufferCount()\<close> of the Frame Buffer Reader (section 4.1), the
  number of buffers of the pool that the reader wraps; the body of
  \<^verbatim>\<open>SysmemBufferReader::num_buffers\<close> is missing.
\<close>

definition num_buffers :: "SysmemBufferReader \<Rightarrow> size_t" where
  "num_buffers r = word_of_nat (length (mappings r))"

text \<open>
  Modelled from the spec: \<^verbatim>\<open>mappingFor(index)\<close> of the Frame Buffer Reader (section 4.1), the
  byte span of buffer \<open>index\<close>; the body of \<^verbatim>\<open>SysmemBufferReader::GetMappingForBuffer\<close> is
  missing. The device calls it only with an index below \<open>num_buffers\<close> (line 309); for any
  other index the model returns the empty span.
\<close>

definition GetMappingForBuffer :: "SysmemBufferReader \<Rightarrow> size_t \<Rightarrow> size_t" where
  "GetMappingForBuffer r index =
     (if unat index < length (mappings r) then mappings r ! unat index else 0)"

type_synonym SysmemBufferPool = nat

subsection \<open>The capture client and the frames\<close>

datatype VideoCaptureError =
    kFuchsiaCameraDeviceDisconnected
  | kFuchsiaCameraStreamDisconnected
  | kFuchsiaSysmemDidNotSetImageFormat
  | kFuchsiaUnsupportedPixelFormat
  | kFuchsiaSysmemInvalidBufferIndex
  | kFuchsiaFailedToMapSysmemBuffer
  | kFuchsiaSysmemInvalidBufferSize

datatype ReserveResult = kSucceeded | kMaxBufferCountExceeded | kAllocationFailed

text \<open>
  A client buffer, as far as the device looks at it: an identifier and the size of the
  mapping that \<^verbatim>\<open>GetHandleForInProcessAccess()\<close> returns. What the client answers to
  \<^verbatim>\<open>ReserveOutputBuffer\<close> is an input of the frame handler.
\<close>

record Buffer =
  buffer_id :: nat
  mapped_size :: size_t

record ReserveReply =
  reserve_result :: ReserveResult
  reserve_buffer :: Buffer

text \<open>
  Times are \<^verbatim>\<open>base::TimeTicks\<close> and \<^verbatim>\<open>base::TimeDelta\<close> values, counted in microseconds, as
  integers. The frame rate is a \<^verbatim>\<open>float\<close> in the source and the exact quotient here: the
  rounding of the floating-point division is not modelled.
\<close>

record VideoCaptureFormat =
  frame_size :: gfx_Size
  frame_rate :: rat
  pixel_format :: VideoPixelFormat

record FrameInfo =
  buffer_index :: uint32_t
  timestamp :: int

text \<open>
  The calls of \<^verbatim>\<open>libyuv\<close>, the only writers of the client buffer, with their arguments in the
  order of the source: the source planes (pointer, stride), the destination planes (pointer,
  stride), width and height.
\<close>

datatype libyuv_call =
    I420Copy ptr cint ptr cint ptr cint  ptr cint ptr cint ptr cint  cint cint
  | NV12ToI420 ptr cint ptr cint  ptr cint ptr cint ptr cint  cint cint

text \<open>
  The calls the device makes on its collaborators, in the order it makes them. Arguments
  that are the same in every call are left out: the feedback id 0 of a reservation, the
  default color space and the empty metadata of a delivery, the location and the text of an
  error.
\<close>

datatype call =
    Client_OnStarted
  | Client_OnError VideoCaptureError
  | Client_ReserveOutputBuffer gfx_Size VideoPixelFormat
  | Client_OnIncomingCapturedBufferExt Buffer VideoCaptureFormat int int gfx_Rect
  | Device_ConnectToStream uint32_t
  | Stream_WatchResolution
  | Stream_SetBufferCollection
  | Stream_WatchBufferCollection
  | Stream_GetNextFrame
  | Creator_Create nat
  | Collection_CreateReader
  | Libyuv libyuv_call

text \<open>The ways a handler can end the process instead of returning.\<close>

datatype fatal = CHECK_dst_end | CHECK_src_end | DivisionByZero | NullDereference

subsection \<open>The device\<close>

text \<open>
  The members of \<^verbatim>\<open>VideoCaptureDeviceFuchsia\<close>, under the names of the source without the
  trailing underscore: \<open>device_bound\<close>, \<open>client_set\<close> and \<open>stream_bound\<close> say whether
  \<open>device_\<close> and \<open>stream_\<close> are bound and \<open>client_\<close> is set, and \<open>frame_size_hint\<close> is
  \<open>frame_size_\<close>. A smart pointer is the flag that it is set, or the object it owns where the
  device reads the object.
\<close>

record VideoCaptureDeviceFuchsia =
  device_bound :: bool
  client_set :: bool
  stream_bound :: bool
  buffer_collection_creator :: bool
  buffer_collection :: "SysmemBufferPool option"
  buffer_reader :: "SysmemBufferReader option"
  frame_size_hint :: "gfx_Size option"
  started :: bool
  start_time :: int
  frames_received :: size_t

type_synonym outcome = "call list \<times> (fatal + VideoCaptureDeviceFuchsia)"

text \<open>Sequencing: the second step runs in the state the first one returned, if it returned.\<close>

definition and_then :: "outcome \<Rightarrow> (VideoCaptureDeviceFuchsia \<Rightarrow> outcome) \<Rightarrow> outcome" where
  "and_then r f =
     (case r of
        (cs, Inl e) \<Rightarrow> (cs, Inl e)
      | (cs, Inr d) \<Rightarrow> (case f d of (cs', r') \<Rightarrow> (cs @ cs', r')))"

section \<open>The pixel converter\<close>

definition RoundUp :: "size_t \<Rightarrow> size_t \<Rightarrow> size_t option" where
  \<comment> \<open>lines 20-22; the division traps when \<open>alignment\<close> is 0\<close>
  "RoundUp value alignment =
     (if alignment = 0 then None
      else Some (((value + alignment - 1) div alignment) * alignment))"

text \<open>
  Lines 24-90. The arguments are the size of \<open>src_span\<close>, the source format, stride and
  coded height, the mapped size of the output handle and the output size. The result is the
  failed \<^verbatim>\<open>CHECK_LE\<close>, or the call of \<^verbatim>\<open>libyuv\<close> that writes the output (none in the default
  case of the switch). The planar strides are \<^verbatim>\<open>int\<close>s and the planar plane sizes \<^verbatim>\<open>size_t\<close>;
  the semi-planar chroma plane size is an \<^verbatim>\<open>int\<close>; for YV12 the pointers \<open>src_u\<close> and \<open>src_v\<close>
  are swapped before \<open>src_end\<close> is taken from \<open>src_v\<close>.
\<close>

definition CopyAndConvertFrame ::
  "size_t \<Rightarrow> PixelFormatType \<Rightarrow> size_t \<Rightarrow> size_t \<Rightarrow> size_t \<Rightarrow> gfx_Size
     \<Rightarrow> fatal + libyuv_call option" where
  "CopyAndConvertFrame src_span_size src_pixel_format src_stride_y src_coded_height
       output_mapped_size output_size =
     (let src_y = (0 :: ptr);
          src_y_plane_size = src_stride_y * src_coded_height;
          dst_y = (0 :: ptr);
          dst_stride_y = width output_size;
          dst_y_plane_size = (scast (width output_size * height output_size) :: size_t);
          dst_u = dst_y + dst_y_plane_size;
          dst_stride_u = int_div (width output_size) 2;
          dst_v = dst_u + dst_y_plane_size div 4;
          dst_stride_v = int_div (width output_size) 2;
          dst_end = dst_v + dst_y_plane_size div 4
      in if \<not> dst_end \<le> dst_y + output_mapped_size then Inl CHECK_dst_end
         else if src_pixel_format = YV12 \<or> src_pixel_format = I420 then
           (let src_u = src_y + src_y_plane_size;
                src_stride_u = (ucast (src_stride_y div 2) :: cint);
                src_u_plane_size = (scast src_stride_u :: size_t) * src_coded_height div 2;
                src_v = src_u + src_u_plane_size;
                src_stride_v = (ucast (src_stride_y div 2) :: cint);
                (src_u, src_v) =
                  (if src_pixel_format = YV12 then (src_v, src_u) else (src_u, src_v));
                src_v_plane_size = (scast src_stride_v :: size_t) * src_coded_height div 2;
                src_end = src_v + src_v_plane_size
            in if \<not> src_end \<le> src_y + src_span_size then Inl CHECK_src_end
               else Inr (Some (I420Copy src_y (ucast src_stride_y) src_u src_stride_u
                                 src_v src_stride_v dst_y dst_stride_y dst_u dst_stride_u
                                 dst_v dst_stride_v (width output_size) (height output_size))))
         else if src_pixel_format = NV12 then
           (let src_uv = src_y + src_stride_y * src_coded_height;
                src_stride_uv = (ucast src_stride_y :: cint);
                src_uv_plane_size =
                  (ucast ((scast src_stride_uv :: size_t) * src_coded_height div 2) :: cint);
                src_end = src_uv + scast src_uv_plane_size
            in if \<not> src_end \<le> src_y + src_span_size then Inl CHECK_src_end
               else Inr (Some (NV12ToI420 src_y (ucast src_stride_y) src_uv src_stride_uv
                                 dst_y dst_stride_y dst_u dst_stride_u dst_v dst_stride_v
                                 (width output_size) (height output_size))))
         else Inr None)"

section \<open>The device's operations\<close>

definition GetConvertedPixelFormat :: "PixelFormatType \<Rightarrow> VideoPixelFormat" where
  "GetConvertedPixelFormat format =
     (case format of
        I420 \<Rightarrow> PIXEL_FORMAT_I420
      | YV12 \<Rightarrow> PIXEL_FORMAT_I420
      | NV12 \<Rightarrow> PIXEL_FORMAT_I420
      | OtherPixelFormat t \<Rightarrow> PIXEL_FORMAT_UNKNOWN)"

definition IsSupportedPixelFormat :: "PixelFormatType \<Rightarrow> bool" where
  "IsSupportedPixelFormat format = (GetConvertedPixelFormat format \<noteq> PIXEL_FORMAT_UNKNOWN)"

text \<open>
  Modelled from the spec: the state \<open>Stopped\<close> in which a capture device begins (section 4.5),
  for the initial values of the members, which the missing class declaration gives. The
  constructor (lines 117-122) binds \<open>device_\<close>; there is no client, no stream, no pool and
  no reader, no start has been signalled and no frame received.
\<close>

definition new_device :: VideoCaptureDeviceFuchsia where
  "new_device =
     \<lparr>device_bound = True, client_set = False, stream_bound = False,
      buffer_collection_creator = False, buffer_collection = None, buffer_reader = None,
      frame_size_hint = None, started = False, start_time = 0, frames_received = 0\<rparr>"

definition DisconnectStream :: "VideoCaptureDeviceFuchsia \<Rightarrow> VideoCaptureDeviceFuchsia" where
  \<comment> \<open>lines 180-186\<close>
  "DisconnectStream d =
     d\<lparr>stream_bound := False, buffer_collection_creator := False,
       buffer_collection := None, buffer_reader := None, frame_size_hint := None\<rparr>"

definition OnError :: "VideoCaptureDeviceFuchsia \<Rightarrow> VideoCaptureError \<Rightarrow> outcome" where
  \<comment> \<open>lines 188-198; the location and the text of the reason are left out\<close>
  "OnError d error =
     (let d' = DisconnectStream d
      in (if client_set d' then [Client_OnError error] else [], Inr d'))"

text \<open>
  A request on \<open>stream_\<close> is sent when the stream is bound; on an unbound interface pointer
  nothing is sent and no reply will come.
\<close>

definition WatchResolution :: "VideoCaptureDeviceFuchsia \<Rightarrow> outcome" where
  "WatchResolution d = (if stream_bound d then [Stream_WatchResolution] else [], Inr d)"

definition WatchBufferCollection :: "VideoCaptureDeviceFuchsia \<Rightarrow> outcome" where
  "WatchBufferCollection d =
     (if stream_bound d then [Stream_WatchBufferCollection] else [], Inr d)"

definition ReceiveNextFrame :: "VideoCaptureDeviceFuchsia \<Rightarrow> outcome" where
  \<comment> \<open>lines 290-295, the request; its reply is \<open>GetNextFrame_callback\<close>\<close>
  "ReceiveNextFrame d = (if stream_bound d then [Stream_GetNextFrame] else [], Inr d)"

definition AllocateAndStart :: "VideoCaptureDeviceFuchsia \<Rightarrow> int \<Rightarrow> outcome" where
  \<comment> \<open>lines 128-160; \<open>now\<close> is what \<^verbatim>\<open>base::TimeTicks::Now()\<close> returns\<close>
  "AllocateAndStart d now =
     (let d = d\<lparr>client_set := True\<rparr>
      in if \<not> device_bound d then OnError d kFuchsiaCameraDeviceDisconnected
         else
           (let d = d\<lparr>start_time := now, frames_received := 0, stream_bound := True\<rparr>
            in and_then
                 (and_then ([Device_ConnectToStream 0], Inr d) WatchResolution)
                 (\<lambda>d. and_then ([Stream_SetBufferCollection], Inr d) WatchBufferCollection)))"

definition StopAndDeAllocate :: "VideoCaptureDeviceFuchsia \<Rightarrow> outcome" where
  \<comment> \<open>lines 162-166\<close>
  "StopAndDeAllocate d = ([], Inr ((DisconnectStream d)\<lparr>client_set := False\<rparr>))"

text \<open>
  The error handlers of the two interface pointers. The binding has unbound the pointer
  whose channel failed when it calls the handler.
\<close>

definition OnDeviceError :: "VideoCaptureDeviceFuchsia \<Rightarrow> outcome" where
  "OnDeviceError d = OnError (d\<lparr>device_bound := False\<rparr>) kFuchsiaCameraDeviceDisconnected"

definition OnStreamError :: "VideoCaptureDeviceFuchsia \<Rightarrow> outcome" where
  "OnStreamError d = OnError (d\<lparr>stream_bound := False\<rparr>) kFuchsiaCameraStreamDisconnected"

definition OnWatchResolutionResult :: "VideoCaptureDeviceFuchsia \<Rightarrow> cint \<times> cint \<Rightarrow> outcome" where
  \<comment> \<open>lines 207-214; the argument is a \<^verbatim>\<open>fuchsia::math::Size\<close>, two \<^verbatim>\<open>int32\<close>\<close>
  "OnWatchResolutionResult d size_arg =
     WatchResolution (d\<lparr>frame_size_hint := Some (Size (fst size_arg) (snd size_arg))\<rparr>)"

definition InitializeBufferCollection :: "VideoCaptureDeviceFuchsia \<Rightarrow> outcome" where
  \<comment> \<open>lines 227-251; \<open>kMaxUsedOutputFrames\<close> is 1\<close>
  "InitializeBufferCollection d =
     (let d = d\<lparr>buffer_collection := None, buffer_reader := None\<rparr>;
          d = d\<lparr>buffer_collection_creator := True\<rparr>;
          kMaxUsedOutputFrames = 1
      in ([Creator_Create kMaxUsedOutputFrames], Inr d))"

definition WatchBufferCollection_callback :: "VideoCaptureDeviceFuchsia \<Rightarrow> outcome" where
  \<comment> \<open>lines 220-224, the reply to \<open>WatchBufferCollection\<close>\<close>
  "WatchBufferCollection_callback d =
     and_then (InitializeBufferCollection d) WatchBufferCollection"

definition OnBufferCollectionCreated ::
  "VideoCaptureDeviceFuchsia \<Rightarrow> SysmemBufferPool \<Rightarrow> outcome" where
  \<comment> \<open>lines 253-261\<close>
  "OnBufferCollectionCreated d collection =
     ([Collection_CreateReader], Inr (d\<lparr>buffer_collection := Some collection\<rparr>))"

definition OnBufferReaderCreated ::
  "VideoCaptureDeviceFuchsia \<Rightarrow> SysmemBufferReader \<Rightarrow> outcome" where
  \<comment> \<open>lines 263-288\<close>
  "OnBufferReaderCreated d reader =
     (let d = d\<lparr>buffer_reader := Some reader\<rparr>
      in if \<not> has_image_format_constraints (buffer_settings reader)
         then OnError d kFuchsiaSysmemDidNotSetImageFormat
         else
           (let pixel_format =
                  pixel_format_type (image_format_constraints (buffer_settings reader))
            in if \<not> IsSupportedPixelFormat pixel_format
               then OnError d kFuchsiaUnsupportedPixelFormat
               else if \<not> started d then
                 (let d = d\<lparr>started := True\<rparr>
                  in if \<not> client_set d then ([], Inl NullDereference)
                     else and_then ([Client_OnStarted], Inr d) ReceiveNextFrame)
               else ([], Inr d)))"

subsection \<open>Processing a frame\<close>

text \<open>
  Lines 319-333: the coded width, the coded height and the row stride of the source, from
  the sysmem constraints. The 32-bit fields are compared as they are and widened to
  \<^verbatim>\<open>size_t\<close> for \<open>RoundUp\<close>; a divisor of 0 traps in the first \<open>RoundUp\<close> that meets it.
\<close>

definition coded_dimensions :: "ImageFormatConstraints \<Rightarrow> (size_t \<times> size_t \<times> size_t) option" where
  "coded_dimensions sysmem_buffer_format =
     (case RoundUp (ucast (max (min_coded_width sysmem_buffer_format)
                               (required_max_coded_width sysmem_buffer_format)))
                   (ucast (coded_width_divisor sysmem_buffer_format)) of
        None \<Rightarrow> None
      | Some src_coded_width \<Rightarrow>
     (case RoundUp (ucast (max (min_coded_height sysmem_buffer_format)
                               (required_max_coded_height sysmem_buffer_format)))
                   (ucast (coded_height_divisor sysmem_buffer_format)) of
        None \<Rightarrow> None
      | Some src_coded_height \<Rightarrow>
     (case RoundUp (max (ucast (min_bytes_per_row sysmem_buffer_format)) src_coded_width)
                   (ucast (bytes_per_row_divisor sysmem_buffer_format)) of
        None \<Rightarrow> None
      | Some src_stride \<Rightarrow> Some (src_coded_width, src_coded_height, src_stride))))"

text \<open>
  Lines 334-335: the visible size is the resolution hint or, while none has arrived, the
  coded size, narrowed from \<^verbatim>\<open>size_t\<close> to the \<^verbatim>\<open>int\<close>s of \<^verbatim>\<open>gfx::Size\<close>.
\<close>

definition visible_size :: "VideoCaptureDeviceFuchsia \<Rightarrow> size_t \<Rightarrow> size_t \<Rightarrow> gfx_Size" where
  "visible_size d src_coded_width src_coded_height =
     (case frame_size_hint d of
        Some s \<Rightarrow> s
      | None \<Rightarrow> Size (ucast src_coded_width) (ucast src_coded_height))"

text \<open>Lines 336-337.\<close>

definition output_size :: "gfx_Size \<Rightarrow> gfx_Size" where
  "output_size visible =
     Size ((width visible + 1) AND NOT 1) ((height visible + 1) AND NOT 1)"

text \<open>
  \<^verbatim>\<open>base::TimeTicks::FromZxTime\<close> is the library function that reads a Zircon time, in
  nanoseconds, as ticks in microseconds.
\<close>

definition FromZxTime :: "int \<Rightarrow> int" where
  "FromZxTime nanos = nanos sdiv 1000"

text \<open>Lines 339-349: the reference time, the timestamp and the capture format.\<close>

definition frame_timestamp :: "VideoCaptureDeviceFuchsia \<Rightarrow> FrameInfo \<Rightarrow> int" where
  "frame_timestamp d frame_info = max (FromZxTime (timestamp frame_info) - start_time d) 0"

definition capture_format_of ::
  "VideoCaptureDeviceFuchsia \<Rightarrow> FrameInfo \<Rightarrow> gfx_Size \<Rightarrow> VideoCaptureFormat" where
  "capture_format_of d frame_info output =
     (let timestamp = frame_timestamp d frame_info;
          frame_rate =
            (if timestamp > 0
             then rat_of_nat (unat (frames_received d)) / (rat_of_int timestamp / 1000000)
             else 0)
      in \<lparr>frame_size = output, frame_rate = frame_rate, pixel_format = PIXEL_FORMAT_I420\<rparr>)"

text \<open>
  Lines 297-389. \<open>reply\<close> is the client's answer to \<^verbatim>\<open>ReserveOutputBuffer\<close>, should the
  handler ask.
\<close>

definition ProcessNewFrame ::
  "VideoCaptureDeviceFuchsia \<Rightarrow> ReserveReply \<Rightarrow> FrameInfo \<Rightarrow> outcome" where
  "ProcessNewFrame d reply frame_info =
     (case buffer_reader d of
        None \<Rightarrow> ([], Inr d)
      | Some reader \<Rightarrow>
          (let index = (ucast (buffer_index frame_info) :: size_t)
           in if index \<ge> num_buffers reader
              then OnError d kFuchsiaSysmemInvalidBufferIndex
              else
                (let sysmem_buffer_format = image_format_constraints (buffer_settings reader)
                 in case coded_dimensions sysmem_buffer_format of
                      None \<Rightarrow> ([], Inl DivisionByZero)
                    | Some (src_coded_width, src_coded_height, src_stride) \<Rightarrow>
                        (let visible = visible_size d src_coded_width src_coded_height;
                             output = output_size visible;
                             reference_time = FromZxTime (timestamp frame_info);
                             capture_format = capture_format_of d frame_info output;
                             reserve = [Client_ReserveOutputBuffer (frame_size capture_format)
                                          (pixel_format capture_format)]
                         in if \<not> client_set d then ([], Inl NullDereference)
                            else if reserve_result reply \<noteq> kSucceeded then (reserve, Inr d)
                            else
                              (let src_span = GetMappingForBuffer reader index
                               in if src_span = 0
                                  then and_then (reserve, Inr d)
                                         (\<lambda>d. OnError d kFuchsiaFailedToMapSysmemBuffer)
                                  else
                                    (let src_buffer_size = src_coded_height * src_stride * 3 div 2
                                     in if src_span < src_buffer_size
                                        then and_then (reserve, Inr d)
                                               (\<lambda>d. OnError d kFuchsiaSysmemInvalidBufferSize)
                                        else
                                          (case CopyAndConvertFrame src_span
                                                  (pixel_format_type sysmem_buffer_format)
                                                  src_stride src_coded_height
                                                  (mapped_size (reserve_buffer reply)) output of
                                             Inl failed \<Rightarrow> (reserve, Inl failed)
                                           | Inr written \<Rightarrow>
                                               (reserve
                                                @ (case written of None \<Rightarrow> []
                                                   | Some c \<Rightarrow> [Libyuv c])
                                                @ [Client_OnIncomingCapturedBufferExt
                                                     (reserve_buffer reply) capture_format
                                                     reference_time
                                                     (frame_timestamp d frame_info)
                                                     (Rect_of_Size visible)],
                                                Inr d))))))))"

definition GetNextFrame_callback ::
  "VideoCaptureDeviceFuchsia \<Rightarrow> ReserveReply \<Rightarrow> FrameInfo \<Rightarrow> outcome" where
  \<comment> \<open>lines 291-294, the reply to \<open>ReceiveNextFrame\<close>\<close>
  "GetNextFrame_callback d reply frame_info =
     and_then (ProcessNewFrame d reply frame_info) ReceiveNextFrame"

subsection \<open>Runs of the device\<close>

text \<open>
  Everything happens on one sequence: a run of the device is the list of the calls made on
  it and of the replies delivered to it, one after the other, until one ends the process.
\<close>

datatype input =
    Start int
  | Stop
  | DeviceError
  | StreamError
  | ResolutionResult "cint \<times> cint"
  | BufferCollectionToken
  | BufferCollectionCreated SysmemBufferPool
  | BufferReaderCreated SysmemBufferReader
  | NextFrame ReserveReply FrameInfo

fun step :: "VideoCaptureDeviceFuchsia \<Rightarrow> input \<Rightarrow> outcome" where
  "step d (Start now) = AllocateAndStart d now"
| "step d Stop = StopAndDeAllocate d"
| "step d DeviceError = OnDeviceError d"
| "step d StreamError = OnStreamError d"
| "step d (ResolutionResult s) = OnWatchResolutionResult d s"
| "step d BufferCollectionToken = WatchBufferCollection_callback d"
| "step d (BufferCollectionCreated collection) = OnBufferCollectionCreated d collection"
| "step d (BufferReaderCreated reader) = OnBufferReaderCreated d reader"
| "step d (NextFrame reply frame_info) = GetNextFrame_callback d reply frame_info"

fun run :: "VideoCaptureDeviceFuchsia \<Rightarrow> input list \<Rightarrow> outcome" where
  "run d [] = ([], Inr d)"
| "run d (i # is) = and_then (step d i) (\<lambda>d. run d is)"

section \<open>Observations and sample inputs\<close>

text \<open>
  What a client sees of the frame rate: the rates in the formats of the frames delivered to
  it, in the order of delivery.
\<close>

fun delivered_frame_rates :: "call list \<Rightarrow> rat list" where
  "delivered_frame_rates [] = []"
| "delivered_frame_rates (Client_OnIncomingCapturedBufferExt b f r t v # cs) =
     frame_rate f # delivered_frame_rates cs"
| "delivered_frame_rates (c # cs) = delivered_frame_rates cs"

text \<open>
  Pipelining, on the calls that the reply to one frame request makes: the next request is
  followed by a later call, so it is not the last thing the reply does.
\<close>

definition request_before_processing_ends :: "call list \<Rightarrow> bool" where
  "request_before_processing_ends cs = (Stream_GetNextFrame \<in> set (butlast cs))"

text \<open>
  What an operation that starts in \<open>d\<close> keeps: with the frame counter at 0 it returns with
  the counter at 0 and delivers frames of rate 0 only; with the started flag set it returns
  with the flag set and does not signal the start.
\<close>

definition keeps :: "VideoCaptureDeviceFuchsia \<Rightarrow> outcome \<Rightarrow> bool" where
  "keeps d out =
     ((frames_received d = 0 \<longrightarrow>
         (case snd out of Inl e \<Rightarrow> True | Inr d' \<Rightarrow> frames_received d' = 0) \<and>
         (\<forall>x \<in> set (delivered_frame_rates (fst out)). x = 0)) \<and>
      (started d \<longrightarrow>
         (case snd out of Inl e \<Rightarrow> True | Inr d' \<Rightarrow> started d') \<and>
         Client_OnStarted \<notin> set (fst out)))"

text \<open>
  A pool of two 640 x 480 I420 buffers of 460800 bytes each, a client that hands out
  buffers of that size, a client that has none left, and a device streaming from that pool.
\<close>

definition vga_constraints :: ImageFormatConstraints where
  "vga_constraints =
     \<lparr>pixel_format_type = I420,
      min_coded_width = 640, required_max_coded_width = 640, coded_width_divisor = 1,
      min_coded_height = 480, required_max_coded_height = 480, coded_height_divisor = 1,
      min_bytes_per_row = 640, bytes_per_row_divisor = 1\<rparr>"

definition vga_reader :: SysmemBufferReader where
  "vga_reader =
     \<lparr>buffer_settings =
        \<lparr>has_image_format_constraints = True, image_format_constraints = vga_constraints\<rparr>,
      mappings = [460800, 460800]\<rparr>"

definition vga_reply :: ReserveReply where
  "vga_reply =
     \<lparr>reserve_result = kSucceeded, reserve_buffer = \<lparr>buffer_id = 0, mapped_size = 460800\<rparr>\<rparr>"

definition busy_reply :: ReserveReply where
  "busy_reply =
     \<lparr>reserve_result = kMaxBufferCountExceeded,
      reserve_buffer = \<lparr>buffer_id = 0, mapped_size = 0\<rparr>\<rparr>"

definition frame_at :: "int \<Rightarrow> FrameInfo" where
  "frame_at nanos = \<lparr>buffer_index = 0, timestamp = nanos\<rparr>"

definition streaming :: VideoCaptureDeviceFuchsia where
  "streaming =
     \<lparr>device_bound = True, client_set = True, stream_bound = True,
      buffer_collection_creator = True, buffer_collection = Some 0,
      buffer_reader = Some vga_reader, frame_size_hint = None, started = True,
      start_time = 0, frames_received = 0\<rparr>"

definition vga_size :: gfx_Size where
  "vga_size = \<lparr>width = 640, height = 480\<rparr>"

definition vga_format :: VideoCaptureFormat where
  "vga_format = \<lparr>frame_size = vga_size, frame_rate = 0, pixel_format = PIXEL_FORMAT_I420\<rparr>"

definition vga_copy :: libyuv_call where
  "vga_copy = I420Copy 0 640 307200 320 384000 320 0 640 307200 320 384000 320 640 480"

text \<open>The width and the height that a call of \<^verbatim>\<open>libyuv\<close> is given.\<close>

fun libyuv_size :: "libyuv_call \<Rightarrow> cint \<times> cint" where
  "libyuv_size (I420Copy sy ssy su ssu sv ssv dy dsy du dsu dv dsv w h) = (w, h)"
| "libyuv_size (NV12ToI420 sy ssy suv ssuv dy dsy du dsu dv dsv w h) = (w, h)"

text \<open>
  Further sample inputs: a device whose resolution hint is 641 x 479, with a client buffer
  for the rounded size; a device whose hint has the largest \<^verbatim>\<open>int\<close> as its width; a pool
  whose first buffer is one byte short and whose second buffer has no mapping.
\<close>

definition max_width_hint :: VideoCaptureDeviceFuchsia where
  "max_width_hint = streaming\<lparr>frame_size_hint := Some \<lparr>width = 2147483647, height = 2\<rparr>\<rparr>"

definition odd_hint :: VideoCaptureDeviceFuchsia where
  "odd_hint = streaming\<lparr>frame_size_hint := Some \<lparr>width = 641, height = 479\<rparr>\<rparr>"

definition odd_reply :: ReserveReply where
  "odd_reply =
     \<lparr>reserve_result = kSucceeded, reserve_buffer = \<lparr>buffer_id = 1, mapped_size = 462240\<rparr>\<rparr>"

definition odd_format :: VideoCaptureFormat where
  "odd_format =
     \<lparr>frame_size = \<lparr>width = 642, height = 480\<rparr>, frame_rate = 0,
      pixel_format = PIXEL_FORMAT_I420\<rparr>"

definition odd_copy :: libyuv_call where
  "odd_copy = I420Copy 0 640 307200 320 384000 320 0 642 308160 321 385200 321 642 480"

definition short_reader :: SysmemBufferReader where
  "short_reader = vga_reader\<lparr>mappings := [460799, 0]\<rparr>"

definition short_pool :: VideoCaptureDeviceFuchsia where
  "short_pool = streaming\<lparr>buffer_reader := Some short_reader\<rparr>"

definition second_frame :: FrameInfo where
  "second_frame = \<lparr>buffer_index = 1, timestamp = 0\<rparr>"

text \<open>
  A device that streams from the 640 x 480 pool with a resolution hint of 65536 x 65536,
  and a client that hands out buffers of one page, 4096 bytes mapped.
\<close>

definition huge_hint :: VideoCaptureDeviceFuchsia where
  "huge_hint = streaming\<lparr>frame_size_hint := Some \<lparr>width = 65536, height = 65536\<rparr>\<rparr>"

definition page_reply :: ReserveReply where
  "page_reply =
     \<lparr>reserve_result = kSucceeded, reserve_buffer = \<lparr>buffer_id = 2, mapped_size = 4096\<rparr>\<rparr>"

definition huge_format :: VideoCaptureFormat where
  "huge_format =
     \<lparr>frame_size = \<lparr>width = 65536, height = 65536\<rparr>, frame_rate = 0,
      pixel_format = PIXEL_FORMAT_I420\<rparr>"

definition huge_copy :: libyuv_call where
  "huge_copy = I420Copy 0 640 307200 320 384000 320 0 65536 0 32768 0 32768 65536 65536"

text \<open>
  Pools with constraints that the 32-bit fields of sysmem can carry, and a device streaming
  from each with a resolution hint of 2 x 2. The YV12 pool has one row: its coded width is
  4294967295 rounded up to a multiple of 2147483649, which is 4294967298, and that is its
  stride; its buffer has 6442450947 bytes, which is \<open>height * stride * 3 / 2\<close>. The tall
  pools, one for each pixel format, have 2865791255 rows of 2145625464 bytes, so that three
  times the product of height and stride is \<open>2^64 + 344\<close>; their buffer has 4096 bytes.
\<close>

definition wide_yv12_constraints :: ImageFormatConstraints where
  "wide_yv12_constraints =
     \<lparr>pixel_format_type = YV12,
      min_coded_width = 4294967295, required_max_coded_width = 0,
      coded_width_divisor = 2147483649,
      min_coded_height = 1, required_max_coded_height = 1, coded_height_divisor = 1,
      min_bytes_per_row = 0, bytes_per_row_divisor = 1\<rparr>"

definition wide_yv12 :: VideoCaptureDeviceFuchsia where
  "wide_yv12 =
     streaming
       \<lparr>buffer_reader := Some
          \<lparr>buffer_settings =
             \<lparr>has_image_format_constraints = True,
              image_format_constraints = wide_yv12_constraints\<rparr>,
           mappings = [6442450947]\<rparr>,
        frame_size_hint := Some \<lparr>width = 2, height = 2\<rparr>\<rparr>"

definition tall_constraints :: "PixelFormatType \<Rightarrow> ImageFormatConstraints" where
  "tall_constraints format =
     \<lparr>pixel_format_type = format,
      min_coded_width = 2, required_max_coded_width = 2, coded_width_divisor = 1,
      min_coded_height = 2865791255, required_max_coded_height = 0, coded_height_divisor = 1,
      min_bytes_per_row = 2145625464, bytes_per_row_divisor = 1\<rparr>"

definition tall_pool :: "PixelFormatType \<Rightarrow> VideoCaptureDeviceFuchsia" where
  "tall_pool format =
     streaming
       \<lparr>buffer_reader := Some
          \<lparr>buffer_settings =
             \<lparr>has_image_format_constraints = True,
              image_format_constraints = tall_constraints format\<rparr>,
           mappings = [4096]\<rparr>,
        frame_size_hint := Some \<lparr>width = 2, height = 2\<rparr>\<rparr>"

section \<open>Properties\<close>

subsection \<open>Tearing the stream down\<close>

lemma DisconnectStream_idem: "DisconnectStream (DisconnectStream d) = DisconnectStream d"
  by (simp add: DisconnectStream_def)

text \<open>
  Claim C9. \<open>StopAndDeAllocate\<close> can be called in every state of the device (while the
  stream starts, once it has started, after the teardown of a fatal error): it returns,
  makes no call, and leaves the stream unbound and the pool creator, the buffer pool, the
  reader, the resolution hint and the client unset. Calling it twice in a row gives the state
  and the calls of calling it once, and after the teardown of an error it gives the state it
  gives without that teardown.
\<close>

theorem StopAndDeAllocate_teardown_idempotent:
  "(\<exists>d'. StopAndDeAllocate d = ([], Inr d') \<and>
      \<not> stream_bound d' \<and> \<not> buffer_collection_creator d' \<and> buffer_collection d' = None \<and>
      buffer_reader d' = None \<and> frame_size_hint d' = None \<and> \<not> client_set d' \<and>
      StopAndDeAllocate d' = ([], Inr d')) \<and>
   run d [Stop, Stop] = run d [Stop] \<and>
   (\<exists>d1. snd (OnError d e) = Inr d1 \<and> StopAndDeAllocate d1 = StopAndDeAllocate d)"
  by (simp add: and_then_def StopAndDeAllocate_def DisconnectStream_def OnError_def Let_def)

subsection \<open>Evaluating the sample inputs\<close>

lemmas handler_defs =
  ProcessNewFrame_def Let_def num_buffers_def GetMappingForBuffer_def visible_size_def
  output_size_def Size_def int_max_def Rect_of_Size_def capture_format_of_def
  frame_timestamp_def FromZxTime_def signed_divide_int_def and_then_def OnError_def
  DisconnectStream_def ReceiveNextFrame_def GetNextFrame_callback_def AllocateAndStart_def
  StopAndDeAllocate_def WatchResolution_def WatchBufferCollection_def
  WatchBufferCollection_callback_def InitializeBufferCollection_def
  OnBufferCollectionCreated_def OnBufferReaderCreated_def IsSupportedPixelFormat_def
  GetConvertedPixelFormat_def OnDeviceError_def OnStreamError_def
  OnWatchResolutionResult_def new_device_def

lemmas sample_defs =
  vga_reader_def vga_constraints_def vga_reply_def busy_reply_def frame_at_def streaming_def
  vga_size_def vga_format_def

lemma vga_dims:
  "coded_dimensions
     \<lparr>pixel_format_type = I420,
      min_coded_width = 640, required_max_coded_width = 640, coded_width_divisor = 1,
      min_coded_height = 480, required_max_coded_height = 480, coded_height_divisor = 1,
      min_bytes_per_row = 640, bytes_per_row_divisor = 1\<rparr> = Some (640, 480, 640)"
  by (simp add: coded_dimensions_def RoundUp_def)

lemma vga_convert:
  "CopyAndConvertFrame 460800 I420 640 480 460800 \<lparr>width = 640, height = 480\<rparr> =
     Inr (Some vga_copy)"
  by (simp add: CopyAndConvertFrame_def Let_def int_div_def signed_divide_int_def vga_copy_def)

subsection \<open>The frame pull loop\<close>

lemma ProcessNewFrame_no_request:
  "Stream_GetNextFrame \<notin> set (fst (ProcessNewFrame d reply fi))"
  by (auto simp add: ProcessNewFrame_def Let_def and_then_def OnError_def
      split: option.splits sum.splits prod.splits)

text \<open>
  Claim C2, as the code has it. The reply to a frame request processes the frame to its
  end and only then asks for the next frame: the calls of the reply are the calls of
  \<open>ProcessNewFrame\<close>, none of which is a frame request, followed by the request (when the
  processing returned and left the stream bound). The request is never followed by a call of
  the same frame's processing.
\<close>

theorem GetNextFrame_callback_requests_last:
  "fst (GetNextFrame_callback d reply fi) =
     fst (ProcessNewFrame d reply fi) @
     (case snd (ProcessNewFrame d reply fi) of
        Inl e \<Rightarrow> []
      | Inr d' \<Rightarrow> if stream_bound d' then [Stream_GetNextFrame] else []) \<and>
   Stream_GetNextFrame \<notin> set (fst (ProcessNewFrame d reply fi)) \<and>
   \<not> request_before_processing_ends (fst (GetNextFrame_callback d reply fi))"
proof -
  obtain cs r where p: "ProcessNewFrame d reply fi = (cs, r)"
    by (cases "ProcessNewFrame d reply fi")
  have no: "Stream_GetNextFrame \<notin> set cs"
    using ProcessNewFrame_no_request [of d reply fi] p by simp
  show ?thesis
    using no p
    by (cases r)
       (auto simp add: GetNextFrame_callback_def and_then_def ReceiveNextFrame_def
          request_before_processing_ends_def butlast_append dest: in_set_butlastD)
qed

text \<open>
  Claim C2 as stated fails: for a frame of the streaming sample device the request for the
  next frame is the last call, made after the frame has been converted and delivered.
\<close>

theorem pipelining_counterexample:
  "fst (GetNextFrame_callback streaming vga_reply (frame_at 0)) =
     [Client_ReserveOutputBuffer vga_size PIXEL_FORMAT_I420, Libyuv vga_copy,
      Client_OnIncomingCapturedBufferExt (reserve_buffer vga_reply) vga_format 0 0
        (Rect 0 0 640 480),
      Stream_GetNextFrame] \<and>
   \<not> request_before_processing_ends
       (fst (GetNextFrame_callback streaming vga_reply (frame_at 0)))"
  by (simp add: handler_defs sample_defs vga_dims vga_convert
       request_before_processing_ends_def)

subsection \<open>Backpressure\<close>

text \<open>
  Claim C8. When the handler asks the client for an output buffer and the client does not
  give one, the request for the buffer is the only call of the frame's processing (no error
  is reported, nothing is delivered) and the device is returned unchanged; the run then
  goes on with the request for the next frame and with the following inputs as it would from
  the state before the dropped frame.
\<close>

theorem dropped_frame_backpressure:
  assumes "Client_ReserveOutputBuffer sz pf \<in> set (fst (ProcessNewFrame d reply fi))"
      and "reserve_result reply \<noteq> kSucceeded"
  shows "ProcessNewFrame d reply fi = ([Client_ReserveOutputBuffer sz pf], Inr d) \<and>
         run d (NextFrame reply fi # rest) =
           (Client_ReserveOutputBuffer sz pf # fst (ReceiveNextFrame d) @ fst (run d rest),
            snd (run d rest))"
proof -
  have p: "ProcessNewFrame d reply fi = ([Client_ReserveOutputBuffer sz pf], Inr d)"
    using assms
    by (auto simp add: ProcessNewFrame_def Let_def and_then_def OnError_def
        split: option.splits if_splits sum.splits prod.splits)
  show ?thesis
    by (simp add: p GetNextFrame_callback_def and_then_def ReceiveNextFrame_def
        split: prod.splits)
qed

theorem dropped_frame_backpressure_witness:
  "Client_ReserveOutputBuffer vga_size PIXEL_FORMAT_I420
      \<in> set (fst (ProcessNewFrame streaming busy_reply (frame_at 0))) \<and>
   reserve_result busy_reply \<noteq> kSucceeded \<and>
   ProcessNewFrame streaming busy_reply (frame_at 0) =
     ([Client_ReserveOutputBuffer vga_size PIXEL_FORMAT_I420], Inr streaming) \<and>
   fst (run streaming
          [NextFrame busy_reply (frame_at 0), NextFrame vga_reply (frame_at 33000000)]) =
     [Client_ReserveOutputBuffer vga_size PIXEL_FORMAT_I420, Stream_GetNextFrame,
      Client_ReserveOutputBuffer vga_size PIXEL_FORMAT_I420, Libyuv vga_copy,
      Client_OnIncomingCapturedBufferExt (reserve_buffer vga_reply) vga_format 33000 33000
        (Rect 0 0 640 480),
      Stream_GetNextFrame]"
proof -
  have m: "Client_ReserveOutputBuffer vga_size PIXEL_FORMAT_I420
      \<in> set (fst (ProcessNewFrame streaming busy_reply (frame_at 0)))"
    by (simp add: handler_defs sample_defs vga_dims)
  have r: "reserve_result busy_reply \<noteq> kSucceeded"
    by (simp add: busy_reply_def)
  have n: "run streaming [NextFrame vga_reply (frame_at 33000000)] =
     ([Client_ReserveOutputBuffer vga_size PIXEL_FORMAT_I420, Libyuv vga_copy,
       Client_OnIncomingCapturedBufferExt (reserve_buffer vga_reply) vga_format 33000 33000
         (Rect 0 0 640 480),
       Stream_GetNextFrame], Inr streaming)"
    by (simp add: handler_defs sample_defs vga_dims vga_convert)
  show ?thesis
    using dropped_frame_backpressure [OF m r, of "[NextFrame vga_reply (frame_at 33000000)]"]
      m r n
    by (simp add: ReceiveNextFrame_def streaming_def)
qed

subsection \<open>The frame counter and the started flag\<close>

lemma delivered_frame_rates_append:
  "delivered_frame_rates (xs @ ys) = delivered_frame_rates xs @ delivered_frame_rates ys"
  by (induction xs rule: delivered_frame_rates.induct) simp_all

text \<open>
  Processing a frame leaves the frame counter and the started flag as they are and never
  signals the start; with the counter at 0 every frame rate it delivers is 0.
\<close>

lemma ProcessNewFrame_keeps:
  assumes "ProcessNewFrame d reply fi = (cs, r)"
  shows "(\<forall>d'. r = Inr d' \<longrightarrow> frames_received d' = frames_received d \<and> started d' = started d) \<and>
         Client_OnStarted \<notin> set cs \<and>
         (frames_received d = 0 \<longrightarrow> (\<forall>x \<in> set (delivered_frame_rates cs). x = 0))"
  using assms
  by (auto simp add: ProcessNewFrame_def Let_def and_then_def OnError_def DisconnectStream_def
        capture_format_of_def
      split: option.splits if_splits sum.splits prod.splits)

text \<open>
  No operation of the device counts a frame, and none clears the started flag: every
  operation, and so every run, keeps both in the sense of \<open>keeps\<close>.
\<close>

lemma keeps_GetNextFrame_callback: "keeps d (GetNextFrame_callback d reply fi)"
proof -
  obtain cs1 r1 where p: "ProcessNewFrame d reply fi = (cs1, r1)"
    by (cases "ProcessNewFrame d reply fi")
  from ProcessNewFrame_keeps [OF p] p show ?thesis
    by (cases r1)
       (auto simp add: keeps_def GetNextFrame_callback_def and_then_def ReceiveNextFrame_def
          delivered_frame_rates_append split: if_splits)
qed

lemma keeps_AllocateAndStart: "keeps d (AllocateAndStart d now)"
  by (auto simp add: keeps_def AllocateAndStart_def Let_def and_then_def WatchResolution_def
      WatchBufferCollection_def OnError_def DisconnectStream_def split: if_splits)

lemma keeps_StopAndDeAllocate: "keeps d (StopAndDeAllocate d)"
  by (auto simp add: keeps_def StopAndDeAllocate_def DisconnectStream_def)

lemma keeps_OnDeviceError: "keeps d (OnDeviceError d)"
  by (auto simp add: keeps_def OnDeviceError_def OnError_def DisconnectStream_def Let_def)

lemma keeps_OnStreamError: "keeps d (OnStreamError d)"
  by (auto simp add: keeps_def OnStreamError_def OnError_def DisconnectStream_def Let_def)

lemma keeps_OnWatchResolutionResult: "keeps d (OnWatchResolutionResult d s)"
  by (auto simp add: keeps_def OnWatchResolutionResult_def WatchResolution_def
      split: if_splits)

lemma keeps_WatchBufferCollection_callback: "keeps d (WatchBufferCollection_callback d)"
  by (auto simp add: keeps_def WatchBufferCollection_callback_def
      InitializeBufferCollection_def Let_def and_then_def WatchBufferCollection_def
      split: if_splits)

lemma keeps_OnBufferCollectionCreated: "keeps d (OnBufferCollectionCreated d c)"
  by (auto simp add: keeps_def OnBufferCollectionCreated_def)

lemma keeps_OnBufferReaderCreated: "keeps d (OnBufferReaderCreated d reader)"
  by (auto simp add: keeps_def OnBufferReaderCreated_def Let_def and_then_def
      ReceiveNextFrame_def OnError_def DisconnectStream_def split: if_splits)

lemma step_keeps: "keeps d (step d i)"
  by (cases i)
     (simp_all add: keeps_GetNextFrame_callback keeps_AllocateAndStart
        keeps_StopAndDeAllocate keeps_OnDeviceError keeps_OnStreamError
        keeps_OnWatchResolutionResult keeps_WatchBufferCollection_callback
        keeps_OnBufferCollectionCreated keeps_OnBufferReaderCreated)

lemma keeps_and_then:
  assumes "keeps d r" and "\<And>d'. snd r = Inr d' \<Longrightarrow> keeps d' (f d')"
  shows "keeps d (and_then r f)"
proof (cases r)
  case (Pair cs x)
  show ?thesis
  proof (cases x)
    case (Inl e)
    with Pair assms(1) show ?thesis by (simp add: and_then_def keeps_def)
  next
    case (Inr d1)
    obtain cs2 r2 where t: "f d1 = (cs2, r2)" by (cases "f d1")
    from assms(2) [of d1] Pair Inr t have k2: "keeps d1 (cs2, r2)" by simp
    from assms(1) Pair Inr have k1: "keeps d (cs, Inr d1)" by simp
    have e: "and_then r f = (cs @ cs2, r2)"
      by (simp add: and_then_def Pair Inr t)
    show ?thesis
      using k1 k2 unfolding e keeps_def
      by (simp add: delivered_frame_rates_append ball_Un)
  qed
qed

lemma run_keeps: "keeps d (run d is)"
proof (induction "is" arbitrary: d)
  case Nil
  show ?case by (simp add: keeps_def)
next
  case (Cons i "is")
  have "keeps d (and_then (step d i) (\<lambda>d. run d is))"
    by (rule keeps_and_then) (rule step_keeps, rule Cons.IH)
  then show ?case by simp
qed

lemma run_frame_rates_zero:
  "frames_received d = 0 \<Longrightarrow> x \<in> set (delivered_frame_rates (fst (run d is))) \<Longrightarrow> x = 0"
  using run_keeps [of d "is"] by (simp add: keeps_def)

lemma run_started_never_signals:
  "started d \<Longrightarrow> Client_OnStarted \<notin> set (fst (run d is))"
  using run_keeps [of d "is"] by (simp add: keeps_def)

text \<open>
  Claim C3, evaluated on the code. The device is started at time 0, the negotiation yields
  the 640 x 480 pool, and three frames arrive with the timestamps 0 ms, 33 ms and 66 ms. All
  three are delivered, and the frame rate in each delivered format is 0: the counter that
  \<open>AllocateAndStart\<close> resets is read by \<open>ProcessNewFrame\<close> and incremented nowhere.
\<close>

theorem frame_rate_of_three_frames:
  "delivered_frame_rates (fst (run new_device
      [Start 0, BufferCollectionToken, BufferCollectionCreated 0,
       BufferReaderCreated vga_reader,
       NextFrame vga_reply (frame_at 0), NextFrame vga_reply (frame_at 33000000),
       NextFrame vga_reply (frame_at 66000000)])) = [0, 0, 0]"
  by (simp add: handler_defs sample_defs vga_dims vga_convert)

text \<open>
  Claim C4, evaluated on the code. A device is started and its negotiation succeeds: it
  signals the start and asks for the first frame. It is stopped and started again, and the
  second negotiation succeeds: no start is signalled and no frame is asked for, since
  \<open>started\<close> was set in the first stream and nothing clears it.
\<close>

theorem restart_does_not_signal_started:
  "fst (run new_device
      [Start 0, BufferCollectionToken, BufferCollectionCreated 0,
       BufferReaderCreated vga_reader,
       Stop,
       Start 100, BufferCollectionToken, BufferCollectionCreated 1,
       BufferReaderCreated vga_reader]) =
     [Device_ConnectToStream 0, Stream_WatchResolution, Stream_SetBufferCollection,
      Stream_WatchBufferCollection, Creator_Create 1, Stream_WatchBufferCollection,
      Collection_CreateReader, Client_OnStarted, Stream_GetNextFrame,
      Device_ConnectToStream 0, Stream_WatchResolution, Stream_SetBufferCollection,
      Stream_WatchBufferCollection, Creator_Create 1, Stream_WatchBufferCollection,
      Collection_CreateReader]"
  by (simp add: handler_defs sample_defs)

subsection \<open>Word arithmetic\<close>

lemma and_not_1_word: "x AND NOT 1 = 2 * (x div 2)" for x :: "'a::len word"
proof (rule bit_word_eqI)
  fix n assume n: "n < LENGTH('a)"
  show "bit (x AND NOT 1) n = bit (2 * (x div 2)) n"
  proof (cases n)
    case 0
    then show ?thesis by (simp add: bit_simps)
  next
    case (Suc m)
    have "bit (2 * (x div 2)) (Suc m) = bit (x div 2) m"
      using n Suc by (simp add: bit_double_iff possible_bit_word)
    also have "\<dots> = bit x (Suc m)" by (simp add: bit_Suc)
    finally show ?thesis using n Suc by (simp add: bit_simps)
  qed
qed

lemma sint_32: "sint x = (uint x + 2147483648) mod 4294967296 - 2147483648" for x :: "32 word"
  using int_word_sint [of "uint x", where 'a = 32] by simp

lemma uint_32_bounds: "0 \<le> uint x \<and> uint x < 4294967296" for x :: "32 word"
  using uint_lt2p [of x] by simp

lemma sint_32_if:
  "sint x = (if uint x < 2147483648 then uint x else uint x - 4294967296)" for x :: "32 word"
proof (cases "uint x < 2147483648")
  case True
  have "(uint x + 2147483648) mod 4294967296 = uint x + 2147483648"
    using True uint_32_bounds [of x] by (intro mod_pos_pos_trivial) simp_all
  then show ?thesis using True by (simp add: sint_32)
next
  case False
  have "(uint x + 2147483648) mod 4294967296 = (uint x + 2147483648 - 4294967296) mod 4294967296"
    by (simp only: minus_mod_self2)
  also have "\<dots> = uint x + 2147483648 - 4294967296"
    using False uint_32_bounds [of x] by (intro mod_pos_pos_trivial) simp_all
  finally show ?thesis using False by (simp add: sint_32)
qed

lemma sint_nonneg_32: "0 \<le> sint x \<Longrightarrow> uint x = sint x" for x :: "32 word"
  using uint_32_bounds [of x] by (simp add: sint_32_if split: if_splits)

lemma sint_small_32: "uint x < 2147483648 \<Longrightarrow> sint x = uint x" for x :: "32 word"
  by (simp add: sint_32_if)

lemma sint_int_max_0: "sint (int_max 0 x) = max 0 (sint x)"
  by (simp add: int_max_def)

lemma round_even_component:
  fixes w :: "32 word"
  assumes "0 \<le> sint w" and "sint w < 2147483647"
  shows "sint (int_max 0 ((w + 1) AND NOT 1)) = 2 * ((sint w + 1) div 2)"
proof -
  have u: "uint w = sint w" using assms(1) by (rule sint_nonneg_32)
  have u1: "uint (w + 1) = sint w + 1"
    using assms u by (simp add: uint_word_ariths)
  have "uint ((w + 1) div 2) = (sint w + 1) div 2"
    using u1 by (simp add: uint_div)
  then have u2: "uint (2 * ((w + 1) div 2)) = 2 * ((sint w + 1) div 2)"
    using assms by (simp add: uint_word_ariths)
  have s: "sint (2 * ((w + 1) div 2)) = 2 * ((sint w + 1) div 2)"
    using u2 assms sint_small_32 [of "2 * ((w + 1) div 2)"] by simp
  have r: "(w + 1) AND NOT 1 = 2 * ((w + 1) div 2)"
    by (rule and_not_1_word)
  show ?thesis
    unfolding r sint_int_max_0 s using assms by simp
qed

lemma output_size_sint:
  assumes "0 \<le> sint (width v)" and "sint (width v) < 2147483647"
      and "0 \<le> sint (height v)" and "sint (height v) < 2147483647"
  shows "sint (width (output_size v)) = 2 * ((sint (width v) + 1) div 2)"
    and "sint (height (output_size v)) = 2 * ((sint (height v) + 1) div 2)"
  using assms unfolding output_size_def Size_def
  by (simp_all only: gfx_Size.select_convs round_even_component)

lemma CopyAndConvertFrame_size:
  "CopyAndConvertFrame ss pf st h ms out = Inr (Some c) \<Longrightarrow>
     libyuv_size c = (width out, height out)"
  by (auto simp add: CopyAndConvertFrame_def Let_def split: if_splits)

lemma ProcessNewFrame_sizes:
  assumes "buffer_reader d = Some reader"
      and "coded_dimensions (image_format_constraints (buffer_settings reader)) = Some (cw, ch, st)"
  shows "Client_ReserveOutputBuffer sz pf \<in> set (fst (ProcessNewFrame d reply fi)) \<Longrightarrow>
           sz = output_size (visible_size d cw ch)"
    and "Libyuv c \<in> set (fst (ProcessNewFrame d reply fi)) \<Longrightarrow>
           libyuv_size c = (width (output_size (visible_size d cw ch)),
                            height (output_size (visible_size d cw ch)))"
    and "Client_OnIncomingCapturedBufferExt b fmt rt ts rect
             \<in> set (fst (ProcessNewFrame d reply fi)) \<Longrightarrow>
           frame_size fmt = output_size (visible_size d cw ch) \<and>
           rect = Rect_of_Size (visible_size d cw ch)"
  using assms
  by (auto simp add: ProcessNewFrame_def Let_def and_then_def OnError_def capture_format_of_def
        dest: CopyAndConvertFrame_size
      split: if_splits sum.splits option.splits)

lemma uint_ucast_64_32: "uint (ucast x :: 32 word) = uint x mod 4294967296" for x :: "64 word"
  using unsigned_ucast_eq [of x, where 'c = 32 and 'a = int] by (simp add: take_bit_eq_mod)

lemma narrowed_size:
  fixes x :: "64 word"
  assumes "unat x < 2147483648"
  shows "sint (int_max 0 (ucast x :: 32 word)) = int (unat x)"
proof -
  have n: "uint x = int (unat x)" by (rule uint_nat)
  have lt: "uint x < 2147483648" unfolding n using assms by linarith
  have ge: "0 \<le> uint x" unfolding n by linarith
  have "uint (ucast x :: 32 word) = uint x"
    unfolding uint_ucast_64_32 using lt ge by (intro mod_pos_pos_trivial) simp_all
  then have "sint (ucast x :: 32 word) = uint x"
    using lt sint_small_32 [of "ucast x"] by simp
  then show ?thesis
    unfolding sint_int_max_0 n by simp
qed

lemma round_up_even_eq: "x = 2 * ((x + 1) div 2) \<longleftrightarrow> even x" for x :: int
proof
  assume e: "x = 2 * ((x + 1) div 2)"
  have "even (2 * ((x + 1) div 2))" by simp
  with e show "even x" by simp
next
  assume "even x"
  then obtain k where "x = 2 * k" by (elim evenE)
  then show "x = 2 * ((x + 1) div 2)" by simp
qed

lemma sint_eq_iff_32: "sint x = sint y \<longleftrightarrow> x = y" for x y :: "32 word"
  by (auto intro: signed_word_eqI)

subsection \<open>The output size\<close>

lemma odd_convert:
  "CopyAndConvertFrame 460800 I420 640 480 462240 \<lparr>width = 642, height = 480\<rparr> =
     Inr (Some odd_copy)"
  by (simp add: CopyAndConvertFrame_def Let_def int_div_def signed_divide_int_def odd_copy_def)

lemma odd_frame:
  "ProcessNewFrame odd_hint odd_reply (frame_at 0) =
     ([Client_ReserveOutputBuffer \<lparr>width = 642, height = 480\<rparr> PIXEL_FORMAT_I420,
       Libyuv odd_copy,
       Client_OnIncomingCapturedBufferExt (reserve_buffer odd_reply) odd_format 0 0
         (Rect 0 0 641 479)],
      Inr odd_hint)"
  by (simp add: handler_defs sample_defs odd_hint_def odd_reply_def odd_format_def vga_dims
        odd_convert)

text \<open>
  Claim C7, for visible sizes below the largest \<^verbatim>\<open>int\<close>. For a visible size whose width and
  height are at least 0 and less than 2147483647, each component of \<open>output_size\<close> is the
  component itself when that is even and the component plus 1 otherwise; it is even, and it is
  the least even integer not below the component. It is the frame handler that computes it:
  when the handler's visible size is \<open>v\<close>, the size it asks the client to reserve, the width
  and height it passes to the converter's \<^verbatim>\<open>libyuv\<close> call and the frame size of the format it
  delivers are all \<open>output_size v\<close>.
\<close>

theorem output_size_least_even:
  assumes "0 \<le> sint (width v)" and "sint (width v) < 2147483647"
      and "0 \<le> sint (height v)" and "sint (height v) < 2147483647"
  shows "sint (width (output_size v)) =
           (if even (sint (width v)) then sint (width v) else sint (width v) + 1) \<and>
         sint (height (output_size v)) =
           (if even (sint (height v)) then sint (height v) else sint (height v) + 1) \<and>
         even (sint (width (output_size v))) \<and> even (sint (height (output_size v))) \<and>
         (\<forall>n. even n \<and> sint (width v) \<le> n \<longrightarrow> sint (width (output_size v)) \<le> n) \<and>
         (\<forall>n. even n \<and> sint (height v) \<le> n \<longrightarrow> sint (height (output_size v)) \<le> n) \<and>
         (buffer_reader d = Some reader \<and>
          coded_dimensions (image_format_constraints (buffer_settings reader)) = Some (cw, ch, st) \<and>
          visible_size d cw ch = v \<longrightarrow>
            (\<forall>sz pf. Client_ReserveOutputBuffer sz pf \<in> set (fst (ProcessNewFrame d reply fi))
                \<longrightarrow> sz = output_size v) \<and>
            (\<forall>c. Libyuv c \<in> set (fst (ProcessNewFrame d reply fi))
                \<longrightarrow> libyuv_size c = (width (output_size v), height (output_size v))) \<and>
            (\<forall>b fmt rt ts rect.
                Client_OnIncomingCapturedBufferExt b fmt rt ts rect
                  \<in> set (fst (ProcessNewFrame d reply fi))
                \<longrightarrow> frame_size fmt = output_size v))"
proof -
  note s = output_size_sint [OF assms]
  have a: "sint (width (output_size v)) =
           (if even (sint (width v)) then sint (width v) else sint (width v) + 1)"
    unfolding s by (auto elim: evenE oddE)
  have b: "sint (height (output_size v)) =
           (if even (sint (height v)) then sint (height v) else sint (height v) + 1)"
    unfolding s by (auto elim: evenE oddE)
  have c: "even (sint (width (output_size v)))" "even (sint (height (output_size v)))"
    unfolding s by simp_all
  have e: "sint (width (output_size v)) \<le> n" if "even n" "sint (width v) \<le> n" for n
    using that unfolding s by (auto elim!: evenE)
  have f: "sint (height (output_size v)) \<le> n" if "even n" "sint (height v) \<le> n" for n
    using that unfolding s by (auto elim!: evenE)
  have g1: "sz = output_size v"
    if "buffer_reader d = Some reader"
      "coded_dimensions (image_format_constraints (buffer_settings reader)) = Some (cw, ch, st)"
      "visible_size d cw ch = v"
      "Client_ReserveOutputBuffer sz pf \<in> set (fst (ProcessNewFrame d reply fi))"
    for sz pf
    using ProcessNewFrame_sizes(1) [OF that(1) that(2) that(4)] that(3) by simp
  have g2: "libyuv_size c = (width (output_size v), height (output_size v))"
    if "buffer_reader d = Some reader"
      "coded_dimensions (image_format_constraints (buffer_settings reader)) = Some (cw, ch, st)"
      "visible_size d cw ch = v"
      "Libyuv c \<in> set (fst (ProcessNewFrame d reply fi))"
    for c
    using ProcessNewFrame_sizes(2) [OF that(1) that(2) that(4)] that(3) by simp
  have g3: "frame_size fmt = output_size v"
    if "buffer_reader d = Some reader"
      "coded_dimensions (image_format_constraints (buffer_settings reader)) = Some (cw, ch, st)"
      "visible_size d cw ch = v"
      "Client_OnIncomingCapturedBufferExt b fmt rt ts rect
         \<in> set (fst (ProcessNewFrame d reply fi))"
    for b fmt rt ts rect
    using ProcessNewFrame_sizes(3) [OF that(1) that(2) that(4)] that(3) by simp
  show ?thesis
  proof (intro conjI allI impI)
    show "sint (width (output_size v)) =
           (if even (sint (width v)) then sint (width v) else sint (width v) + 1)"
      by (rule a)
    show "sint (height (output_size v)) =
           (if even (sint (height v)) then sint (height v) else sint (height v) + 1)"
      by (rule b)
    show "even (sint (width (output_size v)))" "even (sint (height (output_size v)))"
      by (rule c)+
  qed (use e f g1 g2 g3 in \<open>simp_all\<close>)
qed

theorem output_size_least_even_witness:
  "sint (width (output_size \<lparr>width = 641, height = 479\<rparr>)) = 642 \<and>
   sint (height (output_size \<lparr>width = 641, height = 479\<rparr>)) = 480 \<and>
   buffer_reader odd_hint = Some vga_reader \<and>
   coded_dimensions (image_format_constraints (buffer_settings vga_reader)) =
     Some (640, 480, 640) \<and>
   visible_size odd_hint 640 480 = \<lparr>width = 641, height = 479\<rparr> \<and>
   Client_OnIncomingCapturedBufferExt (reserve_buffer odd_reply) odd_format 0 0
       (Rect 0 0 641 479) \<in> set (fst (ProcessNewFrame odd_hint odd_reply (frame_at 0))) \<and>
   frame_size odd_format = output_size \<lparr>width = 641, height = 479\<rparr>"
proof -
  have r: "0 \<le> sint (width \<lparr>width = 641 :: cint, height = 479 :: cint\<rparr>)"
    "sint (width \<lparr>width = 641 :: cint, height = 479 :: cint\<rparr>) < 2147483647"
    "0 \<le> sint (height \<lparr>width = 641 :: cint, height = 479 :: cint\<rparr>)"
    "sint (height \<lparr>width = 641 :: cint, height = 479 :: cint\<rparr>) < 2147483647"
    by simp_all
  have h: "buffer_reader odd_hint = Some vga_reader"
    "coded_dimensions (image_format_constraints (buffer_settings vga_reader)) =
       Some (640, 480, 640)"
    "visible_size odd_hint 640 480 = \<lparr>width = 641, height = 479\<rparr>"
    by (simp_all add: odd_hint_def streaming_def vga_reader_def vga_constraints_def vga_dims
          visible_size_def)
  show ?thesis
    using output_size_least_even [OF r, of odd_hint vga_reader 640 480 640 odd_reply "frame_at 0"]
      h odd_frame
    by (simp add: odd_format_def)
qed

text \<open>
  Claim C7 as stated fails at the width 2147483647: adding 1 wraps around to the least
  \<^verbatim>\<open>int\<close>, whose low bit is clear, and \<^verbatim>\<open>gfx::Size\<close> stores 0 for it; the result is not the
  input plus 1 and is below the input. (No \<^verbatim>\<open>int\<close> is the least even integer not below
  2147483647.)
\<close>

theorem output_size_INT_MAX_counterexample:
  "sint (width (output_size \<lparr>width = 2147483647, height = 2\<rparr>)) = 0"
  by (simp add: output_size_def Size_def int_max_def)

text \<open>
  Claim C10, for visible sizes below the largest \<^verbatim>\<open>int\<close>. When a frame is delivered, and the
  visible size \<open>v\<close> (the resolution hint or, without a hint, the coded size narrowed to
  \<^verbatim>\<open>int\<close>, which is the coded size itself when that is below \<open>2^31\<close>) has components from 0
  to 2147483646, then the delivered rectangle is \<open>v\<close> at the origin, the frame size of the
  delivered format is \<open>v\<close> rounded up to even components, the rectangle lies within the
  frame size, and the two differ exactly when a component of \<open>v\<close> is odd.
\<close>

theorem delivered_rect_and_frame_size:
  assumes "buffer_reader d = Some reader"
      and "coded_dimensions (image_format_constraints (buffer_settings reader)) = Some (cw, ch, st)"
      and "Client_OnIncomingCapturedBufferExt b fmt rt ts rect
             \<in> set (fst (ProcessNewFrame d reply fi))"
      and "v = (case frame_size_hint d of Some s \<Rightarrow> s | None \<Rightarrow> Size (ucast cw) (ucast ch))"
      and "0 \<le> sint (width v)" and "sint (width v) < 2147483647"
      and "0 \<le> sint (height v)" and "sint (height v) < 2147483647"
  shows "rect = Rect 0 0 (width v) (height v) \<and>
         sint (width (frame_size fmt)) = 2 * ((sint (width v) + 1) div 2) \<and>
         sint (height (frame_size fmt)) = 2 * ((sint (height v) + 1) div 2) \<and>
         sint (rect_width rect) \<le> sint (width (frame_size fmt)) \<and>
         sint (rect_height rect) \<le> sint (height (frame_size fmt)) \<and>
         ((rect_width rect, rect_height rect) \<noteq> (width (frame_size fmt), height (frame_size fmt))
            \<longleftrightarrow> odd (sint (width v)) \<or> odd (sint (height v))) \<and>
         (frame_size_hint d = None \<and> unat cw < 2147483648 \<and> unat ch < 2147483648 \<longrightarrow>
            sint (width v) = int (unat cw) \<and> sint (height v) = int (unat ch))"
proof -
  have v: "v = visible_size d cw ch"
    using assms(4) by (simp add: visible_size_def)
  note p = ProcessNewFrame_sizes(3) [OF assms(1) assms(2) assms(3), folded v]
  note s = output_size_sint [OF assms(5-8)]
  have r: "rect = Rect 0 0 (width v) (height v)"
    using p by (simp add: Rect_of_Size_def)
  have fw: "sint (width (frame_size fmt)) = 2 * ((sint (width v) + 1) div 2)"
    and fh: "sint (height (frame_size fmt)) = 2 * ((sint (height v) + 1) div 2)"
    using p s by simp_all
  have lw: "sint (rect_width rect) \<le> sint (width (frame_size fmt))"
    unfolding fw r by simp
  have lh: "sint (rect_height rect) \<le> sint (height (frame_size fmt))"
    unfolding fh r by simp
  have ew: "width v = width (frame_size fmt) \<longleftrightarrow> even (sint (width v))"
    unfolding sint_eq_iff_32 [symmetric] fw by (rule round_up_even_eq)
  have eh: "height v = height (frame_size fmt) \<longleftrightarrow> even (sint (height v))"
    unfolding sint_eq_iff_32 [symmetric] fh by (rule round_up_even_eq)
  have d: "(rect_width rect, rect_height rect) \<noteq> (width (frame_size fmt), height (frame_size fmt))
            \<longleftrightarrow> odd (sint (width v)) \<or> odd (sint (height v))"
    using ew eh by (simp add: r)
  have c: "sint (width v) = int (unat cw) \<and> sint (height v) = int (unat ch)"
    if "frame_size_hint d = None" "unat cw < 2147483648" "unat ch < 2147483648"
    using that assms(4) by (simp add: Size_def narrowed_size)
  from r fw fh lw lh d c show ?thesis by simp
qed

theorem delivered_rect_and_frame_size_witness:
  "buffer_reader odd_hint = Some vga_reader \<and>
   coded_dimensions (image_format_constraints (buffer_settings vga_reader)) =
     Some (640, 480, 640) \<and>
   Client_OnIncomingCapturedBufferExt (reserve_buffer odd_reply) odd_format 0 0
       (Rect 0 0 641 479) \<in> set (fst (ProcessNewFrame odd_hint odd_reply (frame_at 0))) \<and>
   sint (width (frame_size odd_format)) = 642 \<and> sint (height (frame_size odd_format)) = 480 \<and>
   sint (rect_width (Rect 0 0 641 479)) \<le> sint (width (frame_size odd_format)) \<and>
   (rect_width (Rect 0 0 641 479), rect_height (Rect 0 0 641 479)) \<noteq>
     (width (frame_size odd_format), height (frame_size odd_format))"
proof -
  have h: "buffer_reader odd_hint = Some vga_reader"
    "coded_dimensions (image_format_constraints (buffer_settings vga_reader)) =
       Some (640, 480, 640)"
    by (simp_all add: odd_hint_def streaming_def vga_reader_def vga_constraints_def vga_dims)
  have m: "Client_OnIncomingCapturedBufferExt (reserve_buffer odd_reply) odd_format 0 0
       (Rect 0 0 641 479) \<in> set (fst (ProcessNewFrame odd_hint odd_reply (frame_at 0)))"
    by (simp add: odd_frame)
  have v: "\<lparr>width = 641, height = 479\<rparr> =
      (case frame_size_hint odd_hint of Some s \<Rightarrow> s | None \<Rightarrow> Size (ucast (640 :: size_t)) (ucast (480 :: size_t)))"
    by (simp add: odd_hint_def streaming_def)
  have r: "0 \<le> sint (width \<lparr>width = 641 :: cint, height = 479 :: cint\<rparr>)"
    "sint (width \<lparr>width = 641 :: cint, height = 479 :: cint\<rparr>) < 2147483647"
    "0 \<le> sint (height \<lparr>width = 641 :: cint, height = 479 :: cint\<rparr>)"
    "sint (height \<lparr>width = 641 :: cint, height = 479 :: cint\<rparr>) < 2147483647"
    by simp_all
  show ?thesis
    using delivered_rect_and_frame_size [OF h m v r] h m
    by (simp add: odd_format_def)
qed

text \<open>
  Claim C10 as stated fails for a hint of width 2147483647: the frame is delivered with a
  visible rectangle 2147483647 wide in a format whose frame size is 0 wide.
\<close>

theorem delivered_rect_counterexample:
  "fst (ProcessNewFrame max_width_hint vga_reply (frame_at 0)) =
     [Client_ReserveOutputBuffer \<lparr>width = 0, height = 2\<rparr> PIXEL_FORMAT_I420,
      Libyuv (I420Copy 0 640 307200 320 384000 320 0 0 0 0 0 0 0 2),
      Client_OnIncomingCapturedBufferExt (reserve_buffer vga_reply)
        \<lparr>frame_size = \<lparr>width = 0, height = 2\<rparr>, frame_rate = 0,
         pixel_format = PIXEL_FORMAT_I420\<rparr>
        0 0 (Rect 0 0 2147483647 2)] \<and>
   sint (0 :: cint) < sint (2147483647 :: cint)"
proof -
  have c: "CopyAndConvertFrame 460800 I420 640 480 460800 \<lparr>width = 0, height = 2\<rparr> =
     Inr (Some (I420Copy 0 640 307200 320 384000 320 0 0 0 0 0 0 0 2))"
    by (simp add: CopyAndConvertFrame_def Let_def int_div_def signed_divide_int_def)
  show ?thesis
    by (simp add: handler_defs sample_defs max_width_hint_def vga_dims c)
qed

subsection \<open>Undersized source buffers\<close>



text \<open>
  The guard that precedes the size check (lines 360-365): a buffer that has no mapping is
  reported as \<open>kFuchsiaFailedToMapSysmemBuffer\<close>, whatever the required size.
\<close>

lemma unmapped_buffer_reported:
  "GetMappingForBuffer short_reader 1 = 0 \<and>
   ProcessNewFrame short_pool vga_reply second_frame =
     ([Client_ReserveOutputBuffer vga_size PIXEL_FORMAT_I420,
       Client_OnError kFuchsiaFailedToMapSysmemBuffer],
      Inr (DisconnectStream short_pool))"
  by (simp add: handler_defs sample_defs short_pool_def short_reader_def second_frame_def vga_dims
        word_le_nat_alt)

subsection \<open>The converter's bounds checks\<close>

lemma scast_ucast_small:
  fixes x :: "64 word"
  assumes "unat x < 2147483648"
  shows "(scast (ucast x :: 32 word) :: 64 word) = x"
proof -
  have n: "uint x = int (unat x)" by (rule uint_nat)
  have lt: "uint x < 2147483648" unfolding n using assms by linarith
  have ge: "0 \<le> uint x" unfolding n by linarith
  have "uint (ucast x :: 32 word) = uint x"
    unfolding uint_ucast_64_32 using lt ge by (intro mod_pos_pos_trivial) simp_all
  then have "sint (ucast x :: 32 word) = uint x"
    using lt sint_small_32 [of "ucast x"] by simp
  then show ?thesis by (simp add: scast_eq)
qed

lemma unat_mult_64:
  fixes a b :: "64 word"
  assumes "unat a * unat b < 18446744073709551616"
  shows "unat (a * b) = unat a * unat b"
  using assms unat_mult_lem [of a b] by simp

lemma unat_add_64:
  fixes a b :: "64 word"
  assumes "unat a + unat b < 18446744073709551616"
  shows "unat (a + b) = unat a + unat b"
  using assms unat_add_lem [of a b] by simp

lemma half_mult_le: "(s div 2) * h \<le> (s * h) div 2" for s h :: nat
proof -
  have "2 * ((s div 2) * h) \<le> s * h"
    by (metis div_times_less_eq_dividend mult.assoc mult.commute mult_le_mono1)
  then show ?thesis by linarith
qed

lemma planar_bound:
  fixes a b :: nat
  assumes "b \<le> a div 2"
  shows "a + (b div 2 + b div 2) \<le> a * 3 div 2" and "a + b div 2 \<le> a * 3 div 2"
  using assms by linarith+

lemma semi_planar_src_end:
  fixes st h ss :: "64 word"
  assumes "unat h * unat st * 3 < 18446744073709551616"
      and "h * st * 3 div 2 \<le> ss"
  shows "st * h + scast (ucast (st * h div 2) :: 32 word) \<le> ss"
proof -
  define S H where "S = unat st" and "H = unat h"
  have big: "H * S * 3 < 18446744073709551616" using assms(1) by (simp add: S_def H_def)
  have hs: "unat (h * st) = H * S"
    unfolding S_def H_def using assms(1) by (intro unat_mult_64) linarith
  have sh: "unat (st * h) = S * H"
    using hs by (simp add: mult.commute)
  have hs3: "unat (h * st * 3) = H * S * 3"
    using unat_mult_64 [of "h * st" 3] big hs by simp
  have need: "unat (h * st * 3 div 2) = S * H * 3 div 2"
    using hs3 by (simp add: unat_div mult.commute)
  have ss: "S * H * 3 div 2 \<le> unat ss"
    using assms(2) need by (simp add: word_le_nat_alt)
  define T where "T = int (S * H div 2)"
  define m where "m = T mod 4294967296"
  define x where "x = sint (ucast (st * h div 2) :: 32 word)"
  have uT: "uint (st * h div 2) = T"
    unfolding T_def uint_nat by (simp add: unat_div sh)
  have um: "uint (ucast (st * h div 2) :: 32 word) = m"
    unfolding m_def uint_ucast_64_32 uT ..
  have T0: "0 \<le> T" by (simp add: T_def)
  have m0: "0 \<le> m" and m1: "m < 4294967296" and m2: "m \<le> T"
    unfolding m_def using T0 by (simp_all add: zmod_le_nonneg_dividend)
  have m3: "m = T" if "T < 4294967296"
    unfolding m_def using T0 that by (intro mod_pos_pos_trivial)
  have xm: "x = (if m < 2147483648 then m else m - 4294967296)"
    unfolding x_def sint_32_if um ..
  define A where "A = int (S * H)"
  have A2: "2 * T \<le> A" unfolding A_def T_def by linarith
  have A3: "A + T = int (S * H * 3 div 2)" unfolding A_def T_def by linarith
  have top: "uint ss < 18446744073709551616"
    using uint_lt2p [of ss] by simp
  have ssi: "A + T \<le> uint ss"
    unfolding A3 uint_nat of_nat_le_iff by (rule ss)
  have lo: "0 \<le> A + x" and hi: "A + x \<le> uint ss"
    using xm m0 m1 m2 m3 A2 ssi T0 by (auto split: if_splits)
  have "A = uint (st * h)"
    unfolding A_def uint_nat sh ..
  then have a: "st * h = word_of_int A" by simp
  have b: "scast (ucast (st * h div 2) :: 32 word) = (word_of_int x :: 64 word)"
    unfolding x_def by (rule scast_eq)
  from a b have "st * h + scast (ucast (st * h div 2) :: 32 word) =
      (word_of_int A + word_of_int x :: 64 word)"
    by (rule arg_cong2 [where f = "(+)"])
  then have eq: "st * h + scast (ucast (st * h div 2) :: 32 word) = word_of_int (A + x)"
    by (simp only: wi_hom_add)
  have p: "(2 :: int) ^ LENGTH(64) = 18446744073709551616" by simp
  have "uint (word_of_int (A + x) :: 64 word) = (A + x) mod 2 ^ LENGTH(64)"
    by (rule uint_word_of_int)
  also have "\<dots> = (A + x) mod 18446744073709551616"
    by (simp only: p)
  also have "\<dots> = A + x"
    using lo hi top by (intro mod_pos_pos_trivial) linarith+
  finally have "uint (st * h + scast (ucast (st * h div 2) :: 32 word)) = A + x"
    unfolding eq .
  then show ?thesis
    unfolding word_le_def using hi by simp
qed

lemma two_pow_64: "(2 :: int) ^ LENGTH(64) = 18446744073709551616" by simp

lemma uint_word_of_int_64:
  assumes "0 \<le> k" and "k < 18446744073709551616"
  shows "uint (word_of_int k :: 64 word) = k"
proof -
  have "uint (word_of_int k :: 64 word) = k mod 2 ^ LENGTH(64)"
    by (rule uint_word_of_int)
  also have "\<dots> = k mod 18446744073709551616" by (simp only: two_pow_64)
  also have "\<dots> = k" using assms by (intro mod_pos_pos_trivial)
  finally show ?thesis .
qed

lemma uint_word_of_int_64_neg:
  assumes "- 18446744073709551616 \<le> k" and "k < 0"
  shows "uint (word_of_int k :: 64 word) = k + 18446744073709551616"
proof -
  have "uint (word_of_int k :: 64 word) = k mod 2 ^ LENGTH(64)"
    by (rule uint_word_of_int)
  also have "\<dots> = k mod 18446744073709551616" by (simp only: two_pow_64)
  also have "\<dots> = (k + 18446744073709551616) mod 18446744073709551616"
    by (simp only: mod_add_self2)
  also have "\<dots> = k + 18446744073709551616"
    using assms by (intro mod_pos_pos_trivial) linarith+
  finally show ?thesis .
qed

lemma sint_32_range: "- 2147483648 \<le> sint x \<and> sint x < 2147483648" for x :: "32 word"
proof (cases "uint x < 2147483648")
  case True
  have a: "0 \<le> uint x" by (rule uint_ge_0)
  have "sint x = uint x" using True by (simp add: sint_32_if)
  then show ?thesis using a True by linarith
next
  case False
  have b: "uint x < 4294967296" using uint_32_bounds [of x] by (rule conjunct2)
  have "sint x = uint x - 4294967296" using False by (simp add: sint_32_if)
  then show ?thesis using b False by linarith
qed

lemma uint_scast_nonneg:
  fixes w :: "32 word"
  assumes "0 \<le> sint w"
  shows "uint (scast w :: 64 word) = sint w"
proof -
  have "sint w < 18446744073709551616" using sint_32_range [of w] by linarith
  then show ?thesis
    unfolding scast_eq using assms by (intro uint_word_of_int_64)
qed

lemma narrowed_nonneg_le:
  fixes x :: "64 word"
  assumes "0 \<le> sint (ucast x :: 32 word)"
  shows "unat (scast (ucast x :: 32 word) :: 64 word) \<le> unat x"
proof -
  have a: "uint (scast (ucast x :: 32 word) :: 64 word) = sint (ucast x :: 32 word)"
    using assms by (rule uint_scast_nonneg)
  have b: "sint (ucast x :: 32 word) = uint (ucast x :: 32 word)"
    using assms by (simp add: sint_nonneg_32)
  have c: "uint (ucast x :: 32 word) \<le> uint x"
    unfolding uint_ucast_64_32 by (rule zmod_le_nonneg_dividend) simp
  have "uint (scast (ucast x :: 32 word) :: 64 word) \<le> uint x"
    unfolding a b by (rule c)
  then show ?thesis
    unfolding uint_nat of_nat_le_iff .
qed

lemma planar_src_end_general:
  fixes a st h ss :: "64 word"
  assumes "unat a \<le> unat st div 2"
      and "unat h * unat st * 3 < 18446744073709551616"
      and "h * st * 3 div 2 \<le> ss"
  shows "st * h + (a * h div 2) + (a * h div 2) \<le> ss"
    and "st * h + (a * h div 2) \<le> ss"
proof -
  define S H T where "S = unat st" and "H = unat h" and "T = unat a"
  have big: "H * S * 3 < 18446744073709551616" using assms(2) by (simp add: S_def H_def)
  have hs: "unat (h * st) = H * S"
    unfolding S_def H_def using assms(2) by (intro unat_mult_64) linarith
  have sh: "unat (st * h) = S * H"
    using hs by (simp add: mult.commute)
  have hs3: "unat (h * st * 3) = H * S * 3"
    using unat_mult_64 [of "h * st" 3] big hs by simp
  have need: "unat (h * st * 3 div 2) = S * H * 3 div 2"
    using hs3 by (simp add: unat_div mult.commute)
  have "T * H \<le> (S div 2) * H"
    using assms(1) unfolding T_def S_def by (rule mult_le_mono1)
  also have "\<dots> \<le> (S * H) div 2" by (rule half_mult_le)
  finally have le: "T * H \<le> (S * H) div 2" .
  have small: "T * H < 18446744073709551616"
    using le big by (simp add: mult.commute)
  have u0: "unat (a * h) = T * H"
    using unat_mult_64 [of a h] small by (simp add: T_def H_def)
  have u: "unat (a * h div 2) = T * H div 2"
    using u0 by (simp add: unat_div)
  note b = planar_bound [OF le]
  have lim: "S * H * 3 div 2 < 18446744073709551616"
    using big by (simp add: mult.commute)
  have e1: "unat (st * h + (a * h div 2)) = S * H + T * H div 2"
    using unat_add_64 [of "st * h" "a * h div 2"] sh u b(2) lim by simp
  have e2: "unat (st * h + (a * h div 2) + (a * h div 2)) =
              S * H + (T * H div 2 + T * H div 2)"
    using unat_add_64 [of "st * h + (a * h div 2)" "a * h div 2"] e1 u b(1) lim
    by simp
  have ss: "S * H * 3 div 2 \<le> unat ss"
    using assms(3) need by (simp add: word_le_nat_alt)
  show "st * h + (a * h div 2) + (a * h div 2) \<le> ss"
    unfolding word_le_nat_alt e2 using b(1) ss by linarith
  show "st * h + (a * h div 2) \<le> ss"
    unfolding word_le_nat_alt e1 using b(2) ss by linarith
qed

lemma uint_word_of_int_64_over:
  assumes "18446744073709551616 \<le> k" and "k < 36893488147419103232"
  shows "uint (word_of_int k :: 64 word) = k - 18446744073709551616"
proof -
  have "uint (word_of_int k :: 64 word) = k mod 2 ^ LENGTH(64)"
    by (rule uint_word_of_int)
  also have "\<dots> = k mod 18446744073709551616" by (simp only: two_pow_64)
  also have "\<dots> = (k - 18446744073709551616) mod 18446744073709551616"
    by (simp only: minus_mod_self2)
  also have "\<dots> = k - 18446744073709551616"
    using assms by (intro mod_pos_pos_trivial) linarith+
  finally show ?thesis .
qed

lemma product_facts:
  fixes st h ss :: "64 word"
  assumes "unat h * unat st * 3 < 18446744073709551616"
      and "h * st * 3 div 2 \<le> ss"
  shows "uint (st * h) = uint st * uint h"
    and "uint st * uint h * 3 div 2 \<le> uint ss"
    and "uint st * uint h * 3 < 18446744073709551616"
proof -
  define S H where "S = unat st" and "H = unat h"
  have big: "H * S * 3 < 18446744073709551616" using assms(1) by (simp add: S_def H_def)
  have hs: "unat (h * st) = H * S"
    unfolding S_def H_def using assms(1) by (intro unat_mult_64) linarith
  have sh: "unat (st * h) = S * H"
    using hs by (simp add: mult.commute)
  have hs3: "unat (h * st * 3) = H * S * 3"
    using unat_mult_64 [of "h * st" 3] big hs by simp
  have need: "unat (h * st * 3 div 2) = S * H * 3 div 2"
    using hs3 by (simp add: unat_div mult.commute)
  have ss: "S * H * 3 div 2 \<le> unat ss"
    using assms(2) need by (simp add: word_le_nat_alt)
  have us: "uint st = int S" and uh: "uint h = int H"
    unfolding S_def H_def by (rule uint_nat)+
  have "uint (st * h) = int (S * H)"
    unfolding uint_nat sh ..
  then show "uint (st * h) = uint st * uint h"
    unfolding us uh by (simp only: of_nat_mult)
  have "int (S * H * 3 div 2) \<le> int (unat ss)"
    using ss by (simp only: of_nat_le_iff)
  moreover have "int (S * H * 3 div 2) = int S * int H * 3 div 2"
    by (simp add: zdiv_int)
  ultimately show "uint st * uint h * 3 div 2 \<le> uint ss"
    unfolding us uh uint_nat [of ss] by simp
  have "int (H * S * 3) < 18446744073709551616"
    using big by linarith
  then show "uint st * uint h * 3 < 18446744073709551616"
    unfolding us uh by (simp add: mult.commute)
qed

lemma threshold_value:
  fixes st h :: "64 word"
  assumes "unat h * unat st * 3 < 18446744073709551616"
  shows "uint (h * st * 3 div 2) = uint st * uint h * 3 div 2"
proof -
  define S H where "S = unat st" and "H = unat h"
  have big: "H * S * 3 < 18446744073709551616" using assms(1) by (simp add: S_def H_def)
  have hs: "unat (h * st) = H * S"
    unfolding S_def H_def using assms(1) by (intro unat_mult_64) linarith
  have hs3: "unat (h * st * 3) = H * S * 3"
    using unat_mult_64 [of "h * st" 3] big hs by simp
  have need: "unat (h * st * 3 div 2) = S * H * 3 div 2"
    using hs3 by (simp add: unat_div mult.commute)
  have us: "uint st = int S" and uh: "uint h = int H"
    unfolding S_def H_def by (rule uint_nat)+
  have "uint (h * st * 3 div 2) = int (S * H * 3 div 2)"
    unfolding uint_nat need ..
  also have "\<dots> = int S * int H * 3 div 2"
    by (simp add: zdiv_int)
  finally show ?thesis unfolding us uh .
qed

lemma negative_chroma_plane_size:
  fixes st h :: "64 word"
  assumes neg: "sint (ucast (st div 2) :: 32 word) < 0"
      and rows: "h \<noteq> 0"
      and prod: "unat h * unat st * 3 < 18446744073709551616"
  shows "2 * uint (scast (ucast (st div 2) :: 32 word) * h div 2 :: 64 word)
           \<le> 18446744073709551615"
    and "18446744073709551616 \<le>
           uint st * uint h + 2 * uint (scast (ucast (st div 2) :: 32 word) * h div 2 :: 64 word)"
proof -
  define w :: "32 word" where "w = ucast (st div 2)"
  define n where "n = - sint w"
  define Si Hi where "Si = uint st" and "Hi = uint h"
  define A where "A = Si * Hi"
  note pf0 = product_facts [OF prod order_refl]
  have A3: "A * 3 < 18446744073709551616"
    unfolding A_def Si_def Hi_def by (rule pf0(3))
  have Si0: "0 \<le> Si" and Hi0: "0 \<le> Hi" unfolding Si_def Hi_def by simp_all
  have "uint h \<noteq> 0" using rows by (simp add: uint_0_iff)
  then have Hi1: "1 \<le> Hi" using Hi0 unfolding Hi_def by linarith
  have n1: "1 \<le> n" and n2: "n \<le> 2147483648"
    using neg sint_32_range [of w] unfolding n_def w_def by linarith+
  have half: "uint (st div 2) = Si div 2"
    unfolding Si_def by (simp add: uint_div)
  have ge: "2147483648 \<le> Si div 2"
  proof (rule ccontr)
    assume "\<not> 2147483648 \<le> Si div 2"
    then have lt: "uint (st div 2) < 2147483648" unfolding half by linarith
    have "0 \<le> uint (st div 2)" by simp
    then have "uint w = uint (st div 2)"
      unfolding w_def uint_ucast_64_32 using lt by (intro mod_pos_pos_trivial) linarith+
    then have "sint w = uint (st div 2)"
      using lt sint_small_32 [of w] by simp
    then show False using neg unfolding w_def by simp
  qed
  then have Sbig: "4294967296 \<le> Si" by linarith
  have A1: "4294967296 * Hi \<le> A"
    unfolding A_def using Sbig Hi0 by (rule mult_right_mono)
  define NH where "NH = n * Hi"
  have NH1: "1 \<le> NH"
    unfolding NH_def using n1 Hi1 by (metis mult_mono mult_1 zero_le_one order_trans)
  have NH2: "NH \<le> 2147483648 * Hi"
    unfolding NH_def using n2 Hi0 by (rule mult_right_mono)
  define q where "q = (18446744073709551616 - NH) div 2"
  have q1: "2 * q \<le> 18446744073709551616 - NH" and q2: "18446744073709551616 - NH - 1 \<le> 2 * q"
    unfolding q_def by linarith+
  have a: "(scast w :: 64 word) = word_of_int (- n)"
    unfolding n_def scast_eq by simp
  have hw: "h = word_of_int Hi" unfolding Hi_def by simp
  have "(scast w :: 64 word) * h = word_of_int (- n) * word_of_int Hi"
    using a hw by (rule arg_cong2 [where f = "(*)"])
  also have "\<dots> = word_of_int (- n * Hi)" by (simp only: wi_hom_mult)
  also have "- n * Hi = - NH" unfolding NH_def by simp
  finally have ah: "(scast w :: 64 word) * h = word_of_int (- NH)" .
  have "uint ((scast w :: 64 word) * h) = - NH + 18446744073709551616"
    unfolding ah using NH1 NH2 A1 A3 by (intro uint_word_of_int_64_neg) linarith+
  then have uq: "uint ((scast w :: 64 word) * h div 2) = q"
    unfolding q_def by (simp add: uint_div)
  show "2 * uint (scast (ucast (st div 2) :: 32 word) * h div 2 :: 64 word)
          \<le> 18446744073709551615"
    unfolding w_def [symmetric] uq using q1 NH1 by linarith
  show "18446744073709551616 \<le>
          uint st * uint h + 2 * uint (scast (ucast (st div 2) :: 32 word) * h div 2 :: 64 word)"
    unfolding w_def [symmetric] uq Si_def [symmetric] Hi_def [symmetric] A_def [symmetric]
    using q2 NH1 NH2 A1 by linarith
qed

lemma planar_src_end_negative:
  fixes st h ss :: "64 word"
  assumes neg: "sint (ucast (st div 2) :: 32 word) < 0"
      and prod: "unat h * unat st * 3 < 18446744073709551616"
      and thr: "h * st * 3 div 2 \<le> ss"
  shows "st * h + (scast (ucast (st div 2) :: 32 word) * h div 2)
           + (scast (ucast (st div 2) :: 32 word) * h div 2) \<le> ss"
proof (cases "h = 0")
  case True
  then show ?thesis by simp
next
  case False
  define u :: "64 word" where "u = scast (ucast (st div 2) :: 32 word) * h div 2"
  define q where "q = uint u"
  define A where "A = uint st * uint h"
  note pf0 = product_facts [OF prod thr]
  have pf: "uint (st * h) = A" "A * 3 div 2 \<le> uint ss" "A * 3 < 18446744073709551616"
    unfolding A_def by (rule pf0)+
  note np = negative_chroma_plane_size [OF neg False prod]
  have q1: "2 * q \<le> 18446744073709551615" and q2: "18446744073709551616 \<le> A + 2 * q"
    unfolding q_def u_def A_def by (rule np)+
  have uw: "u = word_of_int q" unfolding q_def by simp
  have yw: "st * h = word_of_int A" using pf(1) by (metis word_of_int_uint)
  have "st * h + u = word_of_int A + word_of_int q"
    using yw uw by (rule arg_cong2 [where f = "(+)"])
  then have "st * h + u + u = word_of_int A + word_of_int q + word_of_int q"
    using uw by (rule arg_cong2 [where f = "(+)"])
  also have "\<dots> = word_of_int (A + q + q)" by (simp only: wi_hom_add)
  finally have e: "st * h + u + u = word_of_int (A + q + q)" .
  have "uint (st * h + u + u) = A + q + q - 18446744073709551616"
    unfolding e using q1 q2 pf(3) by (intro uint_word_of_int_64_over) linarith+
  moreover have "A + q + q - 18446744073709551616 \<le> A * 3 div 2"
    using q1 q2 by linarith
  ultimately have "uint (st * h + u + u) \<le> uint ss"
    using pf(2) by linarith
  then show ?thesis
    unfolding word_le_def u_def .
qed

lemma first_chroma_plane_beyond:
  fixes st h :: "64 word"
  assumes neg: "sint (ucast (st div 2) :: 32 word) < 0"
      and rows: "h \<noteq> 0"
      and prod: "unat h * unat st * 3 < 18446744073709551616"
  shows "\<not> st * h + (scast (ucast (st div 2) :: 32 word) * h div 2) \<le> h * st * 3 div 2"
proof -
  define u :: "64 word" where "u = scast (ucast (st div 2) :: 32 word) * h div 2"
  define q where "q = uint u"
  define A where "A = uint st * uint h"
  note pf0 = product_facts [OF prod order_refl]
  have pf: "uint (st * h) = A" "A * 3 < 18446744073709551616"
    unfolding A_def by (rule pf0(1), rule pf0(3))
  have tv: "uint (h * st * 3 div 2) = A * 3 div 2"
    unfolding A_def using prod by (rule threshold_value)
  note np = negative_chroma_plane_size [OF neg rows prod]
  have q1: "2 * q \<le> 18446744073709551615" and q2: "18446744073709551616 \<le> A + 2 * q"
    unfolding q_def u_def A_def by (rule np)+
  have q0: "0 \<le> q" unfolding q_def by simp
  have A0: "0 \<le> A" unfolding A_def by simp
  have uw: "u = word_of_int q" unfolding q_def by simp
  have yw: "st * h = word_of_int A" using pf(1) by (metis word_of_int_uint)
  have "st * h + u = word_of_int A + word_of_int q"
    using yw uw by (rule arg_cong2 [where f = "(+)"])
  also have "\<dots> = word_of_int (A + q)" by (simp only: wi_hom_add)
  finally have e: "st * h + u = word_of_int (A + q)" .
  have v: "uint (st * h + u) = A + q"
    unfolding e using q0 q1 A0 pf(2) by (intro uint_word_of_int_64) linarith+
  have "A * 3 div 2 < A + q"
    using q2 pf(2) A0 by linarith
  then show ?thesis
    unfolding word_le_def v [unfolded u_def] tv by linarith
qed

lemma semi_planar_src_end_general:
  fixes st h ss :: "64 word"
  assumes prod: "unat h * unat st * 3 < 18446744073709551616"
      and thr: "h * st * 3 div 2 \<le> ss"
  shows "st * h + scast (ucast (scast (ucast st :: 32 word) * h div 2) :: 32 word) \<le> ss"
proof (cases "unat st < 2147483648")
  case True
  then have su: "(scast (ucast st :: 32 word) :: 64 word) = st"
    by (rule scast_ucast_small)
  show ?thesis unfolding su using prod thr by (rule semi_planar_src_end)
next
  case big_stride: False
  show ?thesis
  proof (cases "h = 0")
    case True
    then show ?thesis by simp
  next
    case False
    define uv :: "32 word" where "uv = ucast (scast (ucast st :: 32 word) * h div 2)"
    define x where "x = sint uv"
    define Si Hi where "Si = uint st" and "Hi = uint h"
    define A where "A = Si * Hi"
    note pf0 = product_facts [OF prod thr]
    have pf: "uint (st * h) = A" "A * 3 div 2 \<le> uint ss" "A * 3 < 18446744073709551616"
      unfolding A_def Si_def Hi_def by (rule pf0)+
    have Si0: "0 \<le> Si" and Hi0: "0 \<le> Hi" unfolding Si_def Hi_def by simp_all
    have "uint h \<noteq> 0" using False by (simp add: uint_0_iff)
    then have Hi1: "1 \<le> Hi" using Hi0 unfolding Hi_def by linarith
    have "\<not> int (unat st) < 2147483648" using big_stride by linarith
    then have Sbig: "2147483648 \<le> Si" unfolding Si_def uint_nat by linarith
    have xr: "- 2147483648 \<le> x" "x < 2147483648"
      unfolding x_def using sint_32_range [of uv] by simp_all
    have yw: "st * h = word_of_int A" using pf(1) by (metis word_of_int_uint)
    have xw: "(scast uv :: 64 word) = word_of_int x" unfolding x_def by (rule scast_eq)
    have "st * h + scast uv = (word_of_int A + word_of_int x :: 64 word)"
      using yw xw by (rule arg_cong2 [where f = "(+)"])
    then have e: "st * h + scast uv = (word_of_int (A + x) :: 64 word)"
      by (simp only: wi_hom_add)
    have A1: "2147483648 * Hi \<le> A"
      unfolding A_def using Sbig Hi0 by (rule mult_right_mono)
    have key: "0 \<le> A + x \<and> A + x \<le> A * 3 div 2"
    proof (cases "4294967296 \<le> A")
      case True
      then show ?thesis using xr by linarith
    next
      case small: False
      have H1: "Hi = 1" using A1 small Hi1 by linarith
      then have h1: "h = 1" unfolding Hi_def by (metis word_of_int_uint word_of_int_1)
      have AS: "A = Si" unfolding A_def H1 by simp
      have S2: "Si < 4294967296" using small AS by linarith
      define w :: "32 word" where "w = ucast st"
      have "uint w = Si mod 4294967296" unfolding w_def Si_def by (rule uint_ucast_64_32)
      also have "\<dots> = Si" using Si0 S2 by (intro mod_pos_pos_trivial)
      finally have uw: "uint w = Si" .
      have sw: "sint w = Si - 4294967296"
        unfolding sint_32_if uw using Sbig by simp
      have "uint (scast w :: 64 word) = Si - 4294967296 + 18446744073709551616"
        unfolding scast_eq sw using Sbig S2 by (intro uint_word_of_int_64_neg) linarith+
      then have "uint ((scast w :: 64 word) * h div 2) =
                   (Si - 4294967296 + 18446744073709551616) div 2"
        unfolding h1 by (simp add: uint_div)
      also have "\<dots> = Si div 2 + 2147483648 + 2147483647 * 4294967296"
        by linarith
      finally have ud: "uint ((scast w :: 64 word) * h div 2) =
                   Si div 2 + 2147483648 + 2147483647 * 4294967296" .
      have "uint uv = (Si div 2 + 2147483648 + 2147483647 * 4294967296) mod 4294967296"
        unfolding uv_def uint_ucast_64_32 w_def [symmetric] ud ..
      also have "\<dots> = (Si div 2 + 2147483648) mod 4294967296"
        by (rule mod_mult_self1)
      also have "\<dots> = Si div 2 + 2147483648"
        using Sbig S2 by (intro mod_pos_pos_trivial) linarith+
      finally have uu: "uint uv = Si div 2 + 2147483648" .
      have "x = Si div 2 + 2147483648 - 4294967296"
        unfolding x_def sint_32_if uu using Sbig by simp
      then show ?thesis unfolding AS using Sbig S2 by linarith
    qed
    have "uint (st * h + scast uv) = A + x"
      unfolding e using key pf(3) by (intro uint_word_of_int_64) linarith+
    then have "uint (st * h + scast uv) \<le> uint ss"
      using key pf(2) by linarith
    then show ?thesis
      unfolding word_le_def uv_def .
  qed
qed

text \<open>
  Claim C6, where the arithmetic of the two checks does not wrap. Let three times the product
  of coded height and stride fit \<^verbatim>\<open>size_t\<close>, so that the handler's size check (lines 371-376)
  compares the span with \<open>height * stride * 3 / 2\<close> itself; and for YV12 with at least one row,
  let the chroma stride, which is half the stride narrowed to \<^verbatim>\<open>int\<close>, not be negative (every
  stride below \<open>2^32\<close> is such). Then for every source format, every stride, every coded height
  and every span that passes the size check, the converter's \<^verbatim>\<open>CHECK_LE\<close> on \<open>src_end\<close>, the
  computed end of the last source chroma plane, holds: the converter does not end in that
  check. For I420 and NV12 the stride is not restricted.
\<close>

theorem source_bound_assertion:
  assumes "unat src_coded_height * unat src_stride * 3 < 18446744073709551616"
      and "src_coded_height * src_stride * 3 div 2 \<le> src_span_size"
      and "src_pixel_format = YV12 \<longrightarrow>
             src_coded_height = 0 \<or> 0 \<le> sint (ucast (src_stride div 2) :: cint)"
  shows "CopyAndConvertFrame src_span_size src_pixel_format src_stride src_coded_height
           output_mapped_size out \<noteq> Inl CHECK_src_end"
proof -
  note prod = assms(1) and thr = assms(2)
  consider (semi_planar) "src_pixel_format = NV12"
    | (unsupported) x where "src_pixel_format = OtherPixelFormat x"
    | (planar) "src_pixel_format = I420 \<or> src_pixel_format = YV12"
        "0 \<le> sint (ucast (src_stride div 2) :: cint)"
    | (negative) "src_pixel_format = I420" "sint (ucast (src_stride div 2) :: cint) < 0"
    | (no_rows) "src_pixel_format = YV12" "src_coded_height = 0"
    using assms(3) by (cases src_pixel_format) fastforce+
  then show ?thesis
  proof cases
    case semi_planar
    show ?thesis
      using semi_planar_src_end_general [OF prod thr] semi_planar
      by (simp add: CopyAndConvertFrame_def Let_def)
  next
    case unsupported
    then show ?thesis
      by (simp add: CopyAndConvertFrame_def Let_def)
  next
    case planar
    have "unat (scast (ucast (src_stride div 2) :: cint) :: size_t) \<le> unat (src_stride div 2)"
      using planar(2) by (rule narrowed_nonneg_le)
    then have le: "unat (scast (ucast (src_stride div 2) :: cint) :: size_t) \<le> unat src_stride div 2"
      by (simp add: unat_div)
    show ?thesis
      using planar_src_end_general [OF le prod thr] planar(1)
      by (auto simp add: CopyAndConvertFrame_def Let_def)
  next
    case negative
    show ?thesis
      using planar_src_end_negative [OF negative(2) prod thr] negative(1)
      by (simp add: CopyAndConvertFrame_def Let_def)
  next
    case no_rows
    then show ?thesis
      by (simp add: CopyAndConvertFrame_def Let_def)
  qed
qed

theorem source_bound_assertion_witness:
  "unat (480 :: size_t) * unat (640 :: size_t) * 3 < 18446744073709551616 \<and>
   (480 :: size_t) * 640 * 3 div 2 \<le> 460800 \<and>
   (480 :: size_t) \<noteq> 0 \<and> 0 \<le> sint (ucast ((640 :: size_t) div 2) :: cint) \<and>
   CopyAndConvertFrame 460800 YV12 640 480 460800 vga_size \<noteq> Inl CHECK_src_end \<and>
   CopyAndConvertFrame 460800 I420 640 480 460800 vga_size \<noteq> Inl CHECK_src_end \<and>
   CopyAndConvertFrame 460800 NV12 640 480 460800 vga_size \<noteq> Inl CHECK_src_end \<and>
   unat (1 :: size_t) * unat (4294967298 :: size_t) * 3 < 18446744073709551616 \<and>
   (1 :: size_t) * 4294967298 * 3 div 2 \<le> 6442450947 \<and>
   CopyAndConvertFrame 6442450947 I420 4294967298 1 6 \<lparr>width = 2, height = 2\<rparr> \<noteq>
     Inl CHECK_src_end \<and>
   CopyAndConvertFrame 6442450947 NV12 4294967298 1 6 \<lparr>width = 2, height = 2\<rparr> \<noteq>
     Inl CHECK_src_end"
proof -
  have h: "unat (480 :: size_t) * unat (640 :: size_t) * 3 < 18446744073709551616"
    "(480 :: size_t) * 640 * 3 div 2 \<le> 460800"
    by simp_all
  have y: "(480 :: size_t) \<noteq> 0" "0 \<le> sint (ucast ((640 :: size_t) div 2) :: cint)"
    by simp_all
  have w: "unat (1 :: size_t) * unat (4294967298 :: size_t) * 3 < 18446744073709551616"
    "(1 :: size_t) * 4294967298 * 3 div 2 \<le> 6442450947"
    by simp_all
  show ?thesis
    using source_bound_assertion [OF h, of YV12 460800 vga_size]
      source_bound_assertion [OF h, of I420 460800 vga_size]
      source_bound_assertion [OF h, of NV12 460800 vga_size]
      source_bound_assertion [OF w, of I420 6 "\<lparr>width = 2, height = 2\<rparr>"]
      source_bound_assertion [OF w, of NV12 6 "\<lparr>width = 2, height = 2\<rparr>"]
      h y w
    by simp
qed

text \<open>
  Claim C6 as stated fails, in two ways, each on a frame that the handler passes to the
  converter after its size check. The YV12 pool of one row with a stride of \<open>2^32 + 2\<close> bytes
  and a span of exactly \<open>height * stride * 3 / 2\<close> bytes: half the stride does not fit an
  \<^verbatim>\<open>int\<close>, the narrowed \<open>src_stride_u\<close> is negative, and the plane size computed from it puts
  \<open>src_end\<close> far beyond the span. The tall pools with stride 2145625464 and coded height
  2865791255, in each of the three formats: three times the product is \<open>2^64 + 344\<close>, the
  size that the handler asks for wraps to 172 bytes, and a span of 4096 bytes passes the size
  check, while the converter's \<open>src_end\<close> is beyond \<open>2^62\<close>. In all of them the processing of
  the frame ends in the converter's \<^verbatim>\<open>CHECK_LE\<close> on \<open>src_end\<close>.
\<close>

theorem source_bound_assertion_counterexample:
  "coded_dimensions wide_yv12_constraints = Some (4294967298, 1, 4294967298) \<and>
   (1 :: size_t) * 4294967298 * 3 div 2 = 6442450947 \<and>
   CopyAndConvertFrame 6442450947 YV12 4294967298 1 460800 \<lparr>width = 2, height = 2\<rparr> =
     Inl CHECK_src_end \<and>
   ProcessNewFrame wide_yv12 vga_reply (frame_at 0) =
     ([Client_ReserveOutputBuffer \<lparr>width = 2, height = 2\<rparr> PIXEL_FORMAT_I420],
      Inl CHECK_src_end) \<and>
   coded_dimensions (tall_constraints I420) = Some (2, 2865791255, 2145625464) \<and>
   (2865791255 :: size_t) * 2145625464 * 3 div 2 = 172 \<and>
   CopyAndConvertFrame 4096 I420 2145625464 2865791255 460800 \<lparr>width = 2, height = 2\<rparr> =
     Inl CHECK_src_end \<and>
   ProcessNewFrame (tall_pool I420) vga_reply (frame_at 0) =
     ([Client_ReserveOutputBuffer \<lparr>width = 2, height = 2\<rparr> PIXEL_FORMAT_I420],
      Inl CHECK_src_end) \<and>
   ProcessNewFrame (tall_pool YV12) vga_reply (frame_at 0) =
     ([Client_ReserveOutputBuffer \<lparr>width = 2, height = 2\<rparr> PIXEL_FORMAT_I420],
      Inl CHECK_src_end) \<and>
   ProcessNewFrame (tall_pool NV12) vga_reply (frame_at 0) =
     ([Client_ReserveOutputBuffer \<lparr>width = 2, height = 2\<rparr> PIXEL_FORMAT_I420],
      Inl CHECK_src_end)"
proof -
  have a: "coded_dimensions wide_yv12_constraints = Some (4294967298, 1, 4294967298)"
    by (simp add: coded_dimensions_def RoundUp_def wide_yv12_constraints_def)
  have b: "coded_dimensions (tall_constraints format) = Some (2, 2865791255, 2145625464)"
    for format
    by (simp add: coded_dimensions_def RoundUp_def tall_constraints_def)
  have c: "CopyAndConvertFrame 6442450947 YV12 4294967298 1 460800 \<lparr>width = 2, height = 2\<rparr> =
             Inl CHECK_src_end"
    by (simp add: CopyAndConvertFrame_def Let_def word_le_nat_alt)
  have d: "CopyAndConvertFrame 4096 I420 2145625464 2865791255 460800
             \<lparr>width = 2, height = 2\<rparr> = Inl CHECK_src_end"
    "CopyAndConvertFrame 4096 YV12 2145625464 2865791255 460800
       \<lparr>width = 2, height = 2\<rparr> = Inl CHECK_src_end"
    "CopyAndConvertFrame 4096 NV12 2145625464 2865791255 460800
       \<lparr>width = 2, height = 2\<rparr> = Inl CHECK_src_end"
    by (simp_all add: CopyAndConvertFrame_def Let_def word_le_nat_alt)
  have y: "pixel_format_type wide_yv12_constraints = YV12"
    by (simp add: wide_yv12_constraints_def)
  have i: "pixel_format_type (tall_constraints format) = format" for format
    by (simp add: tall_constraints_def)
  have e: "ProcessNewFrame wide_yv12 vga_reply (frame_at 0) =
             ([Client_ReserveOutputBuffer \<lparr>width = 2, height = 2\<rparr> PIXEL_FORMAT_I420],
              Inl CHECK_src_end)"
    by (simp add: handler_defs sample_defs wide_yv12_def a c y word_le_nat_alt
          word_less_nat_alt)
  have f: "ProcessNewFrame (tall_pool I420) vga_reply (frame_at 0) =
             ([Client_ReserveOutputBuffer \<lparr>width = 2, height = 2\<rparr> PIXEL_FORMAT_I420],
              Inl CHECK_src_end)"
    "ProcessNewFrame (tall_pool YV12) vga_reply (frame_at 0) =
       ([Client_ReserveOutputBuffer \<lparr>width = 2, height = 2\<rparr> PIXEL_FORMAT_I420],
        Inl CHECK_src_end)"
    "ProcessNewFrame (tall_pool NV12) vga_reply (frame_at 0) =
       ([Client_ReserveOutputBuffer \<lparr>width = 2, height = 2\<rparr> PIXEL_FORMAT_I420],
        Inl CHECK_src_end)"
    by (simp_all add: handler_defs sample_defs tall_pool_def b d i word_le_nat_alt
          word_less_nat_alt)
  have t: "(1 :: size_t) * 4294967298 * 3 div 2 = 6442450947"
    "(2865791255 :: size_t) * 2145625464 * 3 div 2 = 172"
    by simp_all
  show ?thesis
    using a b c d e f t by simp
qed

text \<open>
  The restriction on YV12 excludes no stride or height for which the claim holds. Whenever
  three times the product of coded height and stride fits \<^verbatim>\<open>size_t\<close>, there is at least one
  row and the narrowed chroma stride is negative, a span of exactly
  \<open>height * stride * 3 / 2\<close> bytes passes the size check and the YV12 converter ends in a
  \<^verbatim>\<open>CHECK_LE\<close>: the one on \<open>src_end\<close>, unless the destination was too small and the one on
  \<open>dst_end\<close> has ended it before.
\<close>

lemma YV12_negative_stride_aborts:
  assumes "sint (ucast (src_stride div 2) :: cint) < 0"
      and "src_coded_height \<noteq> 0"
      and "unat src_coded_height * unat src_stride * 3 < 18446744073709551616"
  shows "CopyAndConvertFrame (src_coded_height * src_stride * 3 div 2) YV12 src_stride
           src_coded_height output_mapped_size out = Inl CHECK_src_end \<or>
         CopyAndConvertFrame (src_coded_height * src_stride * 3 div 2) YV12 src_stride
           src_coded_height output_mapped_size out = Inl CHECK_dst_end"
  using first_chroma_plane_beyond [OF assms]
  by (simp add: CopyAndConvertFrame_def Let_def)

lemma dst_plane_size:
  fixes w h :: "32 word"
  assumes "0 \<le> sint w" and "0 \<le> sint h" and "sint w * sint h < 2147483648"
  shows "uint (scast (w * h) :: 64 word) = sint w * sint h"
proof -
  define P where "P = sint w * sint h"
  have P0: "0 \<le> P" unfolding P_def using assms by simp
  have P1: "P < 2147483648" unfolding P_def by (rule assms(3))
  have uw: "uint w = sint w" and uh: "uint h = sint h"
    using assms by (simp_all add: sint_nonneg_32)
  have p32: "(2 :: int) ^ LENGTH(32) = 4294967296" by simp
  have "uint (w * h) = uint w * uint h mod 2 ^ LENGTH(32)"
    by (rule uint_word_ariths)
  also have "\<dots> = P mod 4294967296"
    unfolding uw uh P_def p32 ..
  also have "\<dots> = P"
    using P0 P1 by (intro mod_pos_pos_trivial) linarith+
  finally have u: "uint (w * h) = P" .
  then have s: "sint (w * h) = P"
    using P1 sint_small_32 [of "w * h"] by simp
  have p64: "(2 :: int) ^ LENGTH(64) = 18446744073709551616" by simp
  have "uint (scast (w * h) :: 64 word) = uint (word_of_int P :: 64 word)"
    unfolding scast_eq s ..
  also have "\<dots> = P mod 2 ^ LENGTH(64)"
    by (rule uint_word_of_int)
  also have "\<dots> = P mod 18446744073709551616"
    by (simp only: p64)
  also have "\<dots> = P"
    using P0 P1 by (intro mod_pos_pos_trivial) linarith+
  finally show ?thesis unfolding P_def .
qed

lemma uint_add_64:
  fixes a b :: "64 word"
  assumes "uint a + uint b < 18446744073709551616"
  shows "uint (a + b) = uint a + uint b"
proof -
  have p64: "(2 :: int) ^ LENGTH(64) = 18446744073709551616" by simp
  have "uint (a + b) = (uint a + uint b) mod 2 ^ LENGTH(64)"
    by (rule uint_word_ariths)
  also have "\<dots> = (uint a + uint b) mod 18446744073709551616"
    by (simp only: p64)
  also have "\<dots> = uint a + uint b"
    using assms by (intro mod_pos_pos_trivial) simp_all
  finally show ?thesis .
qed

lemma dst_end_value:
  fixes p :: "64 word"
  assumes "uint p < 2147483648" and "4 dvd uint p"
  shows "uint (p + p div 4 + p div 4) = uint p + uint p div 2"
proof -
  have q: "uint (p div 4) = uint p div 4" by (simp add: uint_div)
  have p0: "0 \<le> uint p" by simp
  have a: "uint (p + p div 4) = uint p + uint p div 4"
    using uint_add_64 [of p "p div 4"] assms(1) p0 unfolding q by linarith
  have b: "uint (p + p div 4 + p div 4) = uint p + uint p div 4 + uint p div 4"
    using uint_add_64 [of "p + p div 4" "p div 4"] assms(1) p0 unfolding q a by linarith
  obtain k where k: "uint p = 4 * k" using assms(2) by (elim dvdE)
  show ?thesis unfolding b k by simp
qed

lemma ProcessNewFrame_fatal_no_write:
  "snd (ProcessNewFrame d reply fi) = Inl f \<Longrightarrow> Libyuv c \<notin> set (fst (ProcessNewFrame d reply fi))"
  by (auto simp add: ProcessNewFrame_def Let_def and_then_def OnError_def
      split: if_splits sum.splits option.splits)

text \<open>
  Where the \<^verbatim>\<open>int\<close> product of width and height does not overflow and is a multiple of 4 (as
  it is for the even sizes that the handler passes), the check on \<open>dst_end\<close> is the bound that
  the comment of line 44 asks for: the converter ends in the check exactly when the mapped
  size of the destination is less than \<open>width * height\<close> luma bytes plus \<open>width * height / 2\<close>
  chroma bytes, and it calls a \<^verbatim>\<open>libyuv\<close> routine only when the destination holds that many
  bytes. The check comes before every write: a frame whose processing ends in it has made no
  \<^verbatim>\<open>libyuv\<close> call.
\<close>

lemma destination_check_without_overflow:
  assumes "0 \<le> sint (width out)" and "0 \<le> sint (height out)"
      and "4 dvd sint (width out) * sint (height out)"
      and "sint (width out) * sint (height out) < 2147483648"
  shows "(CopyAndConvertFrame ss pf st h ms out = Inl CHECK_dst_end \<longleftrightarrow>
            uint ms < sint (width out) * sint (height out) +
                      sint (width out) * sint (height out) div 2) \<and>
         (\<forall>c. CopyAndConvertFrame ss pf st h ms out = Inr (Some c) \<longrightarrow>
            sint (width out) * sint (height out) +
            sint (width out) * sint (height out) div 2 \<le> uint ms) \<and>
         (\<forall>c. snd (ProcessNewFrame d reply fi) = Inl CHECK_dst_end \<longrightarrow>
            Libyuv c \<notin> set (fst (ProcessNewFrame d reply fi)))"
proof -
  define p :: "64 word" where "p = scast (width out * height out)"
  have up: "uint p = sint (width out) * sint (height out)"
    unfolding p_def using assms(1,2,4) by (rule dst_plane_size)
  have d4: "4 dvd uint p" unfolding up by (rule assms(3))
  have e: "uint (p + p div 4 + p div 4) = uint p + uint p div 2"
    using assms(4) d4 unfolding up [symmetric] by (intro dst_end_value)
  have c: "p + p div 4 + p div 4 \<le> ms \<longleftrightarrow> uint p + uint p div 2 \<le> uint ms"
    unfolding word_le_def e ..
  have i: "CopyAndConvertFrame ss pf st h ms out = Inl CHECK_dst_end \<longleftrightarrow>
            \<not> p + p div 4 + p div 4 \<le> ms"
    by (simp add: CopyAndConvertFrame_def Let_def p_def)
  have 1: "CopyAndConvertFrame ss pf st h ms out = Inl CHECK_dst_end \<longleftrightarrow>
            uint ms < sint (width out) * sint (height out) +
                      sint (width out) * sint (height out) div 2"
    unfolding i c up by linarith
  have 2: "sint (width out) * sint (height out) +
            sint (width out) * sint (height out) div 2 \<le> uint ms"
    if "CopyAndConvertFrame ss pf st h ms out = Inr (Some c)" for c
    using 1 that by simp
  have 3: "Libyuv c \<notin> set (fst (ProcessNewFrame d reply fi))"
    if "snd (ProcessNewFrame d reply fi) = Inl CHECK_dst_end" for c
    using that by (rule ProcessNewFrame_fatal_no_write)
  from 1 2 3 show ?thesis by blast
qed

lemma destination_check_vga:
  "CopyAndConvertFrame 460800 I420 640 480 460799 vga_size = Inl CHECK_dst_end \<and>
   CopyAndConvertFrame 460800 I420 640 480 460800 vga_size \<noteq> Inl CHECK_dst_end"
proof -
  have h: "0 \<le> sint (width vga_size)" "0 \<le> sint (height vga_size)"
    "4 dvd sint (width vga_size) * sint (height vga_size)"
    "sint (width vga_size) * sint (height vga_size) < 2147483648"
    by (simp_all add: vga_size_def)
  show ?thesis
    using destination_check_without_overflow [OF h, of 460800 I420 640 480 460799]
      destination_check_without_overflow [OF h, of 460800 I420 640 480 460800] h
    by (simp add: vga_size_def)
qed

text \<open>
  Claim C5, evaluated on the code. The destination size is 65536 x 65536 and the destination
  has 4096 bytes mapped, where the claim asks for \<open>65536 * 65536\<close> luma bytes plus half as many
  chroma bytes. The plane size of line 37 is the \<^verbatim>\<open>int\<close> product of width and height, taken
  before it is widened to \<^verbatim>\<open>size_t\<close>: it wraps to 0, the computed end of the V plane is the start
  of the buffer, and the \<^verbatim>\<open>CHECK_LE\<close> on \<open>dst_end\<close> passes. The converter does not abort: it
  calls \<^verbatim>\<open>libyuv::I420Copy\<close> for all 65536 x 65536 pixels on the 4096-byte destination. The
  device reaches this call from its start: the resolution hint is 65536 x 65536, the
  negotiation yields the 640 x 480 pool, and the client reserves the 4096-byte buffer for the
  first frame.
\<close>

theorem destination_check_int_overflow:
  "CopyAndConvertFrame 460800 I420 640 480 4096 \<lparr>width = 65536, height = 65536\<rparr> =
     Inr (Some huge_copy) \<and>
   libyuv_size huge_copy = (65536, 65536) \<and>
   uint (mapped_size (reserve_buffer page_reply)) < 65536 * 65536 + 65536 * 65536 div 2 \<and>
   ProcessNewFrame huge_hint page_reply (frame_at 0) =
     ([Client_ReserveOutputBuffer \<lparr>width = 65536, height = 65536\<rparr> PIXEL_FORMAT_I420,
       Libyuv huge_copy,
       Client_OnIncomingCapturedBufferExt (reserve_buffer page_reply) huge_format 0 0
         (Rect 0 0 65536 65536)],
      Inr huge_hint) \<and>
   fst (run new_device
      [Start 0, ResolutionResult (65536, 65536), BufferCollectionToken,
       BufferCollectionCreated 0, BufferReaderCreated vga_reader,
       NextFrame page_reply (frame_at 0)]) =
     [Device_ConnectToStream 0, Stream_WatchResolution, Stream_SetBufferCollection,
      Stream_WatchBufferCollection, Stream_WatchResolution, Creator_Create 1,
      Stream_WatchBufferCollection, Collection_CreateReader, Client_OnStarted,
      Stream_GetNextFrame,
      Client_ReserveOutputBuffer \<lparr>width = 65536, height = 65536\<rparr> PIXEL_FORMAT_I420,
      Libyuv huge_copy,
      Client_OnIncomingCapturedBufferExt (reserve_buffer page_reply) huge_format 0 0
        (Rect 0 0 65536 65536),
      Stream_GetNextFrame]"
proof -
  have c: "CopyAndConvertFrame 460800 I420 640 480 4096 \<lparr>width = 65536, height = 65536\<rparr> =
             Inr (Some huge_copy)"
    by (simp add: CopyAndConvertFrame_def Let_def int_div_def signed_divide_int_def
          huge_copy_def)
  have s: "libyuv_size huge_copy = (65536, 65536)"
    by (simp add: huge_copy_def)
  have m: "uint (mapped_size (reserve_buffer page_reply)) <
             65536 * 65536 + 65536 * 65536 div 2"
    by (simp add: page_reply_def)
  have p: "ProcessNewFrame huge_hint page_reply (frame_at 0) =
     ([Client_ReserveOutputBuffer \<lparr>width = 65536, height = 65536\<rparr> PIXEL_FORMAT_I420,
       Libyuv huge_copy,
       Client_OnIncomingCapturedBufferExt (reserve_buffer page_reply) huge_format 0 0
         (Rect 0 0 65536 65536)],
      Inr huge_hint)"
    by (simp add: handler_defs sample_defs vga_dims c huge_hint_def page_reply_def
          huge_format_def)
  have r: "fst (run new_device
      [Start 0, ResolutionResult (65536, 65536), BufferCollectionToken,
       BufferCollectionCreated 0, BufferReaderCreated vga_reader,
       NextFrame page_reply (frame_at 0)]) =
     [Device_ConnectToStream 0, Stream_WatchResolution, Stream_SetBufferCollection,
      Stream_WatchBufferCollection, Stream_WatchResolution, Creator_Create 1,
      Stream_WatchBufferCollection, Collection_CreateReader, Client_OnStarted,
      Stream_GetNextFrame,
      Client_ReserveOutputBuffer \<lparr>width = 65536, height = 65536\<rparr> PIXEL_FORMAT_I420,
      Libyuv huge_copy,
      Client_OnIncomingCapturedBufferExt (reserve_buffer page_reply) huge_format 0 0
        (Rect 0 0 65536 65536),
      Stream_GetNextFrame]"
    by (simp add: handler_defs sample_defs vga_dims c page_reply_def huge_format_def)
  show ?thesis
    using c s m p r by simp
qed

end
